theory Spec2Isabelle
  imports Complex_Main "HOL-Library.AList" "HOL-Library.Sublist"
begin

section \<open>Data model\<close>

text \<open>
  The module \<^verbatim>\<open>nomic/atlas.py\<close> has two entry operations, \<^verbatim>\<open>map_embeddings\<close> and
  \<^verbatim>\<open>map_text\<close>. Both talk to a remote dataset through an \<^verbatim>\<open>AtlasDataset\<close> object
  and write to a logger. The model makes both effects explicit: every method call on the
  dataset object is appended to a trace, every logger call to a log.
\<close>

text \<open>A datum is a Python dict with string keys. Python dicts keep insertion order, and
  \<^verbatim>\<open>d[k] = v\<close> overwrites in place or appends; that is \<open>AList.update\<close>.\<close>

datatype val = Str string | Int int | Float real | Bool bool

type_synonym datum = "(string \<times> val) list"

definition has_key :: "datum \<Rightarrow> string \<Rightarrow> bool" where
  "has_key d k = (k \<in> fst ` set d)"

definition set_item :: "datum \<Rightarrow> string \<Rightarrow> val \<Rightarrow> datum" where
  "set_item d k v = AList.update k v d"

text \<open>An \<open>[N, d]\<close> numpy array, as its list of rows. The entries are only passed on.\<close>

type_synonym ndarray = "real list list"

definition size_of :: "ndarray \<Rightarrow> nat" where
  "size_of embeddings = sum_list (map length embeddings)"

text \<open>Exceptions. \<open>Exception\<close>, \<open>IndexError\<close> and \<open>KeyboardInterrupt\<close> are Python's own;
  \<open>ValidationError\<close> and \<open>RemoteError\<close> stand for whatever the dataset object raises.\<close>

datatype exn =
    Exception string
  | IndexError
  | KeyboardInterrupt
  | ValidationError string
  | RemoteError string

text \<open>Keyword arguments of a call, in the order the source writes them.\<close>

datatype arg = AStr string | ABool bool | AInt int | AFloat real | AStrs "string list" | ANone

type_synonym kwargs = "(string \<times> arg) list"

definition opt_str :: "string option \<Rightarrow> arg" where
  "opt_str s = (case s of None \<Rightarrow> ANone | Some x \<Rightarrow> AStr x)"

text \<open>The method calls made on the dataset object (and its constructor).\<close>

datatype call =
    AtlasDataset kwargs
  | Add_text "datum list"
  | Add_embeddings ndarray "datum list"
  | Delete
  | Create_index kwargs
  | Rebuild_maps
  | Latest_project_state

datatype level = INFO | WARNING

record state =
  trace :: "call list"
  log :: "(level \<times> string) list"

definition init :: state where
  "init = \<lparr>trace = [], log = []\<rparr>"

text \<open>
  The dataset class lives in \<^verbatim>\<open>nomic/dataset.py\<close>, outside the two functions. It is a
  parameter of the model: \<open>respond\<close> says, from the calls made so far and the call being
  made, whether the call raises; \<open>total_datums\<close> is the count the object reports;
  \<open>validate_map_data_inputs\<close> is its local input check.
\<close>

record remote =
  respond :: "call list \<Rightarrow> call \<Rightarrow> exn option"
  total_datums :: nat
  validate_map_data_inputs :: "string list \<Rightarrow> string \<Rightarrow> datum \<Rightarrow> exn option"

type_synonym 'a outcome = "(exn + 'a) \<times> state"

definition invoke :: "remote \<Rightarrow> call \<Rightarrow> state \<Rightarrow> unit outcome" where
  "invoke env c st =
     ((case respond env (trace st) c of None \<Rightarrow> Inr () | Some e \<Rightarrow> Inl e),
      st\<lparr>trace := trace st @ [c]\<rparr>)"

definition logger :: "level \<Rightarrow> string \<Rightarrow> state \<Rightarrow> state" where
  "logger l msg st = st\<lparr>log := log st @ [(l, msg)]\<rparr>"

text \<open>The object the constructor returns, named by the arguments it was built from.\<close>

datatype project = Project kwargs

text \<open>\<^verbatim>\<open>ATLAS_DEFAULT_ID_FIELD\<close> comes from \<^verbatim>\<open>nomic/settings.py\<close>; the docstrings of both
  functions give its value.\<close>

definition ATLAS_DEFAULT_ID_FIELD :: string where
  "ATLAS_DEFAULT_ID_FIELD = ''id_''"

text \<open>A Python iterator that is consumed once: it yields finitely many items and then
  either stops or raises.\<close>

datatype 'a iterator = Stop | Raise exn | Yield 'a "'a iterator"

fun iter :: "'a list \<Rightarrow> 'a iterator" where
  "iter [] = Stop"
| "iter (x # xs) = Yield x (iter xs)"

text \<open>\<^verbatim>\<open>if name:\<close> holds for a string that is neither \<^verbatim>\<open>None\<close> nor empty.\<close>

fun truthy :: "string option \<Rightarrow> bool" where
  "truthy None = False"
| "truthy (Some s) = (s \<noteq> [])"

section \<open>Arguments\<close>

text \<open>The keyword arguments the two functions share, and those each has of its own.
  \<^verbatim>\<open>data\<close> (and \<^verbatim>\<open>embeddings\<close>) are passed to the model functions directly.\<close>

record options =
  id_field :: "string option"
  name :: "string option"
  description :: "string option"
  is_public :: bool
  colorable_fields :: "string list"
  build_topic_model :: bool
  num_workers :: "nat option"
  reset_project_if_exists :: bool
  add_datums_if_exists :: bool
  shard_size :: "nat option"
  projection_n_neighbors :: int
  projection_epochs :: int
  projection_spread :: real

record text_options = options +
  indexed_field :: string
  duplicate_detection :: bool
  duplicate_threshold :: real

record embeddings_options = options +
  topic_label_field :: "string option"

text \<open>Lines 66 to 78 and 189 to 200, the same in both functions: the identifier field and
  the description default, and a name that is given replaces the random one, both as
  project name and as index name.\<close>

definition id_field_of :: "'a options_scheme \<Rightarrow> string" where
  "id_field_of a = (case id_field a of None \<Rightarrow> ATLAS_DEFAULT_ID_FIELD | Some f \<Rightarrow> f)"

definition description_of :: "'a options_scheme \<Rightarrow> string" where
  "description_of a =
     (case description a of None \<Rightarrow> ''A description for your map.'' | Some d \<Rightarrow> d)"

definition name_of :: "string \<Rightarrow> 'a options_scheme \<Rightarrow> string" where
  "name_of random_name a = (if truthy (name a) then the (name a) else random_name)"

section \<open>The text path\<close>

text \<open>The \<^verbatim>\<open>for d in data_iterator\<close> loop of \<^verbatim>\<open>map_text\<close> (lines 254 to 264), with the
  loop variables \<open>batch\<close> and \<open>id_to_add\<close> as arguments. It returns the batch left over.\<close>

fun text_loop ::
  "remote \<Rightarrow> (nat \<Rightarrow> string) \<Rightarrow> nat \<Rightarrow> bool \<Rightarrow> string \<Rightarrow> datum iterator \<Rightarrow>
   datum list \<Rightarrow> nat \<Rightarrow> state \<Rightarrow> (datum list) outcome" where
  "text_loop env b64int upload_batch_size add_id_field idf Stop batch id_to_add st =
     (Inr batch, st)"
| "text_loop env b64int upload_batch_size add_id_field idf (Raise e) batch id_to_add st =
     (Inl e, st)"
| "text_loop env b64int upload_batch_size add_id_field idf (Yield d it) batch id_to_add st =
     (let d' = (if add_id_field then set_item d idf (Str (b64int id_to_add)) else d);
          id_to_add' = (if add_id_field then id_to_add + 1 else id_to_add);
          batch' = batch @ [d']
      in if length batch' \<ge> upload_batch_size then
           (case invoke env (Add_text batch') st of
              (Inl e, st') \<Rightarrow> (Inl e, st')
            | (Inr _, st') \<Rightarrow>
                text_loop env b64int upload_batch_size add_id_field idf it [] id_to_add' st')
         else text_loop env b64int upload_batch_size add_id_field idf it batch' id_to_add' st)"

text \<open>The body of the \<^verbatim>\<open>try\<close> block (lines 245 to 267), for any batch size.\<close>

definition text_upload_sized ::
  "remote \<Rightarrow> (nat \<Rightarrow> string) \<Rightarrow> nat \<Rightarrow> bool \<Rightarrow> string \<Rightarrow> datum \<Rightarrow> datum iterator \<Rightarrow>
   state \<Rightarrow> unit outcome" where
  "text_upload_sized env b64int upload_batch_size add_id_field idf first_sample it st =
     (let id_to_add = 0;
          first_sample' =
            (if add_id_field then set_item first_sample idf (Str (b64int id_to_add))
             else first_sample);
          id_to_add' = (if add_id_field then id_to_add + 1 else id_to_add);
          batch = [first_sample']
      in case text_loop env b64int upload_batch_size add_id_field idf it batch id_to_add' st of
           (Inl e, st') \<Rightarrow> (Inl e, st')
         | (Inr batch', st') \<Rightarrow>
             if length batch' > 0 then invoke env (Add_text batch') st' else (Inr (), st'))"

definition text_upload ::
  "remote \<Rightarrow> (nat \<Rightarrow> string) \<Rightarrow> bool \<Rightarrow> string \<Rightarrow> datum \<Rightarrow> datum iterator \<Rightarrow>
   state \<Rightarrow> unit outcome" where
  "text_upload env b64int = text_upload_sized env b64int 100000"

text \<open>The \<^verbatim>\<open>except BaseException as e\<close> handler, the same in both functions (lines 121 to
  125 and 269 to 273). It is entered for every exception, whatever its class. An exception
  raised by \<^verbatim>\<open>project.delete()\<close> leaves the handler in place of \<open>e\<close>.\<close>

definition on_failure ::
  "remote \<Rightarrow> string \<Rightarrow> nat \<Rightarrow> unit outcome \<Rightarrow> unit outcome" where
  "on_failure env project_name number_of_datums_before_upload r =
     (case r of
        (Inr u, st) \<Rightarrow> (Inr u, st)
      | (Inl e, st) \<Rightarrow>
          if number_of_datums_before_upload = 0 then
            (case invoke env Delete
                    (logger INFO
                       (project_name @ '': Deleting dataset due to failure in initial upload.'')
                       st) of
               (Inl e', st') \<Rightarrow> (Inl e', st')
             | (Inr _, st') \<Rightarrow> (Inl e, st'))
          else (Inl e, st))"

text \<open>The deprecation warnings; the two functions word them differently.\<close>

definition deprecations ::
  "string \<Rightarrow> string \<Rightarrow> nat option \<Rightarrow> nat option \<Rightarrow> state \<Rightarrow> state" where
  "deprecations shard_msg workers_msg shard workers st =
     (let st1 = (if shard \<noteq> None then logger WARNING shard_msg st else st)
      in if workers \<noteq> None then logger WARNING workers_msg st1 else st1)"

text \<open>After the upload: a new index for a dataset that was empty, a refresh otherwise,
  then the refreshed dataset object is returned (lines 277 to 296 and 129 to 145).\<close>

definition after_upload ::
  "remote \<Rightarrow> bool \<Rightarrow> nat \<Rightarrow> kwargs \<Rightarrow> project \<Rightarrow> state \<Rightarrow> (project option) outcome" where
  "after_upload env log_projection number_of_datums_before_upload index_kwargs p st =
     (case (if number_of_datums_before_upload = 0 then
              (case invoke env (Create_index index_kwargs) st of
                 (Inl e, st') \<Rightarrow> (Inl e, st')
               | (Inr u, st') \<Rightarrow>
                   (Inr u, if log_projection then logger INFO ''projection'' st' else st'))
            else invoke env Rebuild_maps st) of
        (Inl e, st') \<Rightarrow> (Inl e, st')
      | (Inr _, st') \<Rightarrow>
          (case invoke env Latest_project_state st' of
             (Inl e, st'') \<Rightarrow> (Inl e, st'')
           | (Inr _, st'') \<Rightarrow> (Inr (Some p), st'')))"

definition text_dataset_kwargs :: "string \<Rightarrow> string \<Rightarrow> string \<Rightarrow> text_options \<Rightarrow> kwargs" where
  "text_dataset_kwargs project_name descr idf a =
     [(''name'', AStr project_name),
      (''description'', AStr descr),
      (''unique_id_field'', AStr idf),
      (''modality'', AStr ''text''),
      (''is_public'', ABool (is_public a)),
      (''reset_project_if_exists'', ABool (reset_project_if_exists a)),
      (''add_datums_if_exists'', ABool (add_datums_if_exists a))]"

definition text_index_kwargs :: "string \<Rightarrow> text_options \<Rightarrow> kwargs" where
  "text_index_kwargs index_name a =
     [(''name'', AStr index_name),
      (''indexed_field'', AStr (indexed_field a)),
      (''colorable_fields'', AStrs (colorable_fields a)),
      (''build_topic_model'', ABool (build_topic_model a)),
      (''projection_n_neighbors'', AInt (projection_n_neighbors a)),
      (''projection_epochs'', AInt (projection_epochs a)),
      (''projection_spread'', AFloat (projection_spread a)),
      (''duplicate_detection'', ABool (duplicate_detection a)),
      (''duplicate_threshold'', AFloat (duplicate_threshold a))]"

text \<open>\<^verbatim>\<open>map_text\<close>. \<open>random_name\<close> is what \<^verbatim>\<open>get_random_name()\<close> returned and \<open>b64int\<close> is
  the encoder of \<^verbatim>\<open>nomic/utils.py\<close>. The argument \<open>data\<close> is the iterator that lines 202
  to 209 make of the caller's data frame, table or iterable.\<close>

definition map_text ::
  "remote \<Rightarrow> (nat \<Rightarrow> string) \<Rightarrow> string \<Rightarrow> datum iterator \<Rightarrow> text_options \<Rightarrow> state \<Rightarrow>
   (project option) outcome" where
  "map_text env b64int random_name data a st =
     (let idf = id_field_of a;
          descr = description_of a;
          project_name = name_of random_name a;
          index_name = name_of random_name a
      in case data of
           Raise e \<Rightarrow> (Inl e, st)
         | Stop \<Rightarrow>
             (Inr None, logger WARNING ''Passed data has no samples. No dataset will be created'' st)
         | Yield first_sample data_iterator \<Rightarrow>
             (case invoke env (AtlasDataset (text_dataset_kwargs project_name descr idf a)) st of
                (Inl e, st1) \<Rightarrow> (Inl e, st1)
              | (Inr _, st1) \<Rightarrow>
                  (let add_id_field = (idf = ATLAS_DEFAULT_ID_FIELD \<and> \<not> has_key first_sample idf);
                       st2 = (if add_id_field then
                                logger WARNING
                                  ''An ID field was not specified in your data so one was generated for you in insertion order.''
                                  st1
                              else st1)
                   in case validate_map_data_inputs env (colorable_fields a) idf first_sample of
                        Some e \<Rightarrow> (Inl e, st2)
                      | None \<Rightarrow>
                          (let number_of_datums_before_upload = total_datums env;
                               st3 = logger INFO ''Uploading text to Atlas.'' st2;
                               st4 = deprecations
                                       ''Passing 'shard_size' is deprecated and will be removed in a future release.''
                                       ''Passing 'num_workers' is deprecated and will be removed in a future release.''
                                       (shard_size a) (num_workers a) st3
                           in case on_failure env project_name number_of_datums_before_upload
                                     (text_upload env b64int add_id_field idf first_sample
                                        data_iterator st4) of
                                (Inl e, st5) \<Rightarrow> (Inl e, st5)
                              | (Inr _, st5) \<Rightarrow>
                                  after_upload env True number_of_datums_before_upload
                                    (text_index_kwargs index_name a)
                                    (Project (text_dataset_kwargs project_name descr idf a))
                                    (logger INFO ''Text upload succeeded.'' st5)))))"

section \<open>The embeddings path\<close>

text \<open>The loop of lines 87 to 90: \<^verbatim>\<open>for i in range(len(data))\<close>, each entry replaced by
  a copy that carries the identifier.\<close>

definition assign_ids :: "(nat \<Rightarrow> string) \<Rightarrow> string \<Rightarrow> datum list \<Rightarrow> datum list" where
  "assign_ids b64int idf data =
     fold (\<lambda>i data. data[i := set_item (data ! i) idf (Str (b64int i))])
       [0..<length data] data"

definition embeddings_dataset_kwargs ::
  "string \<Rightarrow> string \<Rightarrow> string \<Rightarrow> embeddings_options \<Rightarrow> kwargs" where
  "embeddings_dataset_kwargs project_name descr idf a =
     [(''identifier'', AStr project_name),
      (''description'', AStr descr),
      (''unique_id_field'', AStr idf),
      (''modality'', AStr ''embedding''),
      (''is_public'', ABool (is_public a)),
      (''reset_project_if_exists'', ABool (reset_project_if_exists a)),
      (''add_datums_if_exists'', ABool (add_datums_if_exists a))]"

definition embeddings_index_kwargs :: "string \<Rightarrow> embeddings_options \<Rightarrow> kwargs" where
  "embeddings_index_kwargs index_name a =
     [(''name'', AStr index_name),
      (''colorable_fields'', AStrs (colorable_fields a)),
      (''build_topic_model'', ABool (build_topic_model a)),
      (''projection_n_neighbors'', AInt (projection_n_neighbors a)),
      (''projection_epochs'', AInt (projection_epochs a)),
      (''projection_spread'', AFloat (projection_spread a)),
      (''topic_label_field'', opt_str (topic_label_field a))]"

text \<open>Lines 80 to 91: the metadata that will be uploaded, and whether identifiers were
  generated. \<^verbatim>\<open>data[0]\<close> is read only when the identifier field is the default one, and
  raises \<^verbatim>\<open>IndexError\<close> on an empty list.\<close>

definition prepare_data ::
  "(nat \<Rightarrow> string) \<Rightarrow> string \<Rightarrow> ndarray \<Rightarrow> datum list option \<Rightarrow> exn + (datum list \<times> bool)" where
  "prepare_data b64int idf embeddings data =
     (let data1 = (case data of
                     None \<Rightarrow>
                       map (\<lambda>i. [(ATLAS_DEFAULT_ID_FIELD, Str (b64int i))]) [0..<length embeddings]
                   | Some d \<Rightarrow> d);
          added_id_field = (data = None)
      in if idf = ATLAS_DEFAULT_ID_FIELD then
           (if data1 = [] then Inl IndexError
            else if \<not> has_key (data1 ! 0) idf then Inr (assign_ids b64int idf data1, True)
            else Inr (data1, added_id_field))
         else Inr (data1, added_id_field))"

text \<open>\<^verbatim>\<open>map_embeddings\<close>. The \<^verbatim>\<open>assert isinstance\<close> of line 61 is the type of \<open>embeddings\<close>.\<close>

definition map_embeddings ::
  "remote \<Rightarrow> (nat \<Rightarrow> string) \<Rightarrow> string \<Rightarrow> ndarray \<Rightarrow> datum list option \<Rightarrow>
   embeddings_options \<Rightarrow> state \<Rightarrow> (project option) outcome" where
  "map_embeddings env b64int random_name embeddings data a st =
     (if size_of embeddings = 0 then (Inl (Exception ''Your embeddings cannot be empty''), st)
      else
        (let idf = id_field_of a;
             descr = description_of a;
             project_name = name_of random_name a;
             index_name = name_of random_name a
         in case prepare_data b64int idf embeddings data of
              Inl e \<Rightarrow> (Inl e, st)
            | Inr (data', added_id_field) \<Rightarrow>
                (let st1 = (if added_id_field then
                              logger WARNING
                                ''An ID field was not specified in your data so one was generated for you in insertion order.''
                                st
                            else st)
                 in case invoke env
                           (AtlasDataset (embeddings_dataset_kwargs project_name descr idf a)) st1 of
                      (Inl e, st2) \<Rightarrow> (Inl e, st2)
                    | (Inr _, st2) \<Rightarrow>
                        (let number_of_datums_before_upload = total_datums env;
                             st3 = logger INFO ''Uploading embeddings to Atlas.'' st2;
                             st4 = deprecations
                                     ''Passing `shard_size` is deprecated and will raise an error in a future release''
                                     ''Passing `num_workers` is deprecated and will raise an error in a future release''
                                     (shard_size a) (num_workers a) st3
                         in case on_failure env project_name number_of_datums_before_upload
                                   (invoke env (Add_embeddings embeddings data') st4) of
                              (Inl e, st5) \<Rightarrow> (Inl e, st5)
                            | (Inr _, st5) \<Rightarrow>
                                after_upload env False number_of_datums_before_upload
                                  (embeddings_index_kwargs index_name a)
                                  (Project (embeddings_dataset_kwargs project_name descr idf a))
                                  (logger INFO ''Embedding upload succeeded.'' st5)))))"

section \<open>Observations on a run\<close>

text \<open>What an iterator yields, and the exception it ends with, if any.\<close>

fun items :: "'a iterator \<Rightarrow> 'a list" where
  "items Stop = []"
| "items (Raise e) = []"
| "items (Yield x it) = x # items it"

fun ending :: "'a iterator \<Rightarrow> exn option" where
  "ending Stop = None"
| "ending (Raise e) = Some e"
| "ending (Yield x it) = ending it"

text \<open>The batches passed to \<^verbatim>\<open>add_text\<close>, and the metadata passed to
  \<^verbatim>\<open>add_embeddings\<close>, in the order of the calls.\<close>

fun sent :: "call list \<Rightarrow> datum list list" where
  "sent [] = []"
| "sent (Add_text b # cs) = b # sent cs"
| "sent (c # cs) = sent cs"

fun sent_embeddings :: "call list \<Rightarrow> datum list list" where
  "sent_embeddings [] = []"
| "sent_embeddings (Add_embeddings e d # cs) = d # sent_embeddings cs"
| "sent_embeddings (c # cs) = sent_embeddings cs"

text \<open>The input sequence with the identifiers the specification asks for: the record at
  position \<open>i\<close> gets \<open>b64int (k + i)\<close> when identifiers are generated, and is passed on
  as it is otherwise.\<close>

definition with_ids :: "(nat \<Rightarrow> string) \<Rightarrow> bool \<Rightarrow> string \<Rightarrow> nat \<Rightarrow> datum list \<Rightarrow> datum list" where
  "with_ids b64int add_id_field idf k xs =
     (if add_id_field then map (\<lambda>i. set_item (xs ! i) idf (Str (b64int (k + i)))) [0..<length xs]
      else xs)"

text \<open>The calls of a trace that raised, replayed against the remote side.\<close>

fun raised :: "remote \<Rightarrow> call list \<Rightarrow> call list \<Rightarrow> (call \<times> exn) list" where
  "raised env prev [] = []"
| "raised env prev (c # cs) =
     (case respond env prev c of None \<Rightarrow> [] | Some e \<Rightarrow> [(c, e)]) @ raised env (prev @ [c]) cs"

fun is_add :: "call \<Rightarrow> bool" where
  "is_add (Add_text b) = True"
| "is_add (Add_embeddings e d) = True"
| "is_add c = False"

definition add_errors :: "remote \<Rightarrow> call list \<Rightarrow> exn list" where
  "add_errors env tr = map snd (filter (\<lambda>ce. is_add (fst ce)) (raised env [] tr))"

definition delete_errors :: "remote \<Rightarrow> call list \<Rightarrow> exn list" where
  "delete_errors env tr = map snd (filter (\<lambda>ce. fst ce = Delete) (raised env [] tr))"

definition deletes :: "call list \<Rightarrow> nat" where
  "deletes tr = length (filter (\<lambda>c. c = Delete) tr)"

fun is_index_call :: "call \<Rightarrow> bool" where
  "is_index_call (Create_index kw) = True"
| "is_index_call Rebuild_maps = True"
| "is_index_call c = False"

definition index_calls :: "call list \<Rightarrow> call list" where
  "index_calls tr = filter is_index_call tr"

text \<open>Names for parts of \<^verbatim>\<open>map_text\<close>: whether identifiers are generated (line 229), the
  constructor call (line 217), and the state in which the \<^verbatim>\<open>try\<close> block is entered.\<close>

definition text_add_id :: "text_options \<Rightarrow> datum \<Rightarrow> bool" where
  "text_add_id a x = (id_field_of a = ATLAS_DEFAULT_ID_FIELD \<and> \<not> has_key x (id_field_of a))"

definition text_ctor :: "string \<Rightarrow> text_options \<Rightarrow> call" where
  "text_ctor rn a = AtlasDataset (text_dataset_kwargs (name_of rn a) (description_of a) (id_field_of a) a)"

definition text_begin :: "string \<Rightarrow> text_options \<Rightarrow> datum \<Rightarrow> state \<Rightarrow> state" where
  "text_begin rn a x st =
     deprecations
       ''Passing 'shard_size' is deprecated and will be removed in a future release.''
       ''Passing 'num_workers' is deprecated and will be removed in a future release.''
       (shard_size a) (num_workers a)
       (logger INFO ''Uploading text to Atlas.''
          (let st1 = st\<lparr>trace := trace st @ [text_ctor rn a]\<rparr>
           in if text_add_id a x then
                logger WARNING
                  ''An ID field was not specified in your data so one was generated for you in insertion order.''
                  st1
              else st1))"

section \<open>Example inputs\<close>

text \<open>A remote side on which every call succeeds and the dataset is new, an encoder that
  writes \<open>n\<close> as \<open>n\<close> letters, and the default arguments.\<close>

definition unary :: "nat \<Rightarrow> string" where
  "unary n = replicate n CHR ''A''"

definition ok_remote :: remote where
  "ok_remote = \<lparr>respond = (\<lambda>tr c. None), total_datums = 0,
                 validate_map_data_inputs = (\<lambda>cf idf d. None)\<rparr>"

definition example_options :: options where
  "example_options =
     \<lparr>id_field = None, name = None, description = None, is_public = True,
      colorable_fields = [], build_topic_model = True, num_workers = None,
      reset_project_if_exists = False, add_datums_if_exists = False, shard_size = None,
      projection_n_neighbors = 15, projection_epochs = 50, projection_spread = 1\<rparr>"

definition example_text_options :: text_options where
  "example_text_options =
     options.extend example_options
       \<lparr>indexed_field = ''text'', duplicate_detection = True, duplicate_threshold = 0\<rparr>"

definition example_embeddings_options :: embeddings_options where
  "example_embeddings_options =
     options.extend example_options \<lparr>topic_label_field = None\<rparr>"

definition example_data :: "datum list" where
  "example_data = [[(''text'', Str ''a'')], [(''text'', Str ''b'')]]"

definition emb_ctor :: "string \<Rightarrow> embeddings_options \<Rightarrow> call" where
  "emb_ctor rn a =
     AtlasDataset (embeddings_dataset_kwargs (name_of rn a) (description_of a) (id_field_of a) a)"

definition emb_begin :: "string \<Rightarrow> embeddings_options \<Rightarrow> bool \<Rightarrow> state \<Rightarrow> state" where
  "emb_begin rn a added_id_field st =
     deprecations
       ''Passing `shard_size` is deprecated and will raise an error in a future release''
       ''Passing `num_workers` is deprecated and will raise an error in a future release''
       (shard_size a) (num_workers a)
       (logger INFO ''Uploading embeddings to Atlas.''
          (let st1 = (if added_id_field then
                        logger WARNING
                          ''An ID field was not specified in your data so one was generated for you in insertion order.''
                          st
                      else st)
           in st1\<lparr>trace := trace st1 @ [emb_ctor rn a]\<rparr>))"

text \<open>Remote sides on which uploading fails: on the first every add call raises, on the
  second the delete call raises as well. The dataset is new on both.\<close>

definition add_fails_remote :: remote where
  "add_fails_remote =
     \<lparr>respond = (\<lambda>tr c. if is_add c then Some (RemoteError ''add'') else None),
      total_datums = 0,
      validate_map_data_inputs = (\<lambda>cf idf d. None)\<rparr>"

definition delete_fails_remote :: remote where
  "delete_fails_remote =
     \<lparr>respond = (\<lambda>tr c. if is_add c then Some (RemoteError ''add'')
                         else if c = Delete then Some (RemoteError ''delete'') else None),
      total_datums = 0,
      validate_map_data_inputs = (\<lambda>cf idf d. None)\<rparr>"

text \<open>The call that follows a successful upload (lines 130 to 142 and 278 to 293).\<close>

definition index_call :: "nat \<Rightarrow> kwargs \<Rightarrow> call" where
  "index_call number_of_datums_before_upload kw =
     (if number_of_datums_before_upload = 0 then Create_index kw else Rebuild_maps)"

text \<open>A remote side whose dataset holds 500 records already.\<close>

definition existing_remote :: remote where
  "existing_remote = \<lparr>respond = (\<lambda>tr c. None), total_datums = 500,
                       validate_map_data_inputs = (\<lambda>cf idf d. None)\<rparr>"

text \<open>Modelled from the spec: \<^verbatim>\<open>_validate_map_data_inputs\<close>, a method of the dataset class in
  \<^verbatim>\<open>nomic/dataset.py\<close>. Section 7 of the specification names the check used here:
  colorable fields that are not present in the data are a validation error.\<close>

definition check_colorable :: "string list \<Rightarrow> string \<Rightarrow> datum \<Rightarrow> exn option" where
  "check_colorable cf idf d =
     (if list_all (has_key d) cf then None
      else Some (ValidationError ''colorable fields not present in data''))"

definition validating_remote :: remote where
  "validating_remote = \<lparr>respond = (\<lambda>tr c. None), total_datums = 0,
                         validate_map_data_inputs = check_colorable\<rparr>"

definition label_options :: text_options where
  "label_options = example_text_options\<lparr>colorable_fields := [''label'']\<rparr>"

text \<open>The four deprecation warnings of lines 112, 114, 241 and 243, and the log without them.\<close>

definition deprecation_messages :: "string list" where
  "deprecation_messages =
     [''Passing `shard_size` is deprecated and will raise an error in a future release'',
      ''Passing `num_workers` is deprecated and will raise an error in a future release'',
      ''Passing 'shard_size' is deprecated and will be removed in a future release.'',
      ''Passing 'num_workers' is deprecated and will be removed in a future release.'']"

definition is_deprecation :: "level \<times> string \<Rightarrow> bool" where
  "is_deprecation m = (fst m = WARNING \<and> snd m \<in> set deprecation_messages)"

definition other_log :: "state \<Rightarrow> (level \<times> string) list" where
  "other_log st = filter (\<lambda>m. \<not> is_deprecation m) (log st)"

text \<open>Two outcomes agree when they are the same result after the same calls, with logs that
  differ in deprecation warnings only.\<close>

definition agree :: "'a outcome \<Rightarrow> 'a outcome \<Rightarrow> bool" where
  "agree r1 r2 =
     (fst r1 = fst r2 \<and> trace (snd r1) = trace (snd r2) \<and> other_log (snd r1) = other_log (snd r2))"

text \<open>The calls made after the last add call of a trace.\<close>

definition calls_after_upload :: "call list \<Rightarrow> call list" where
  "calls_after_upload tr = rev (takeWhile (\<lambda>c. \<not> is_add c) (rev tr))"

section \<open>The identifier loops on a store\<close>

text \<open>
  The functions above pass records by value. Python passes references: the caller keeps its
  dicts and its list, and sees what the call does to them. The two identifier loops are
  modelled here once more on a store of objects, where an address is an index into the
  store, a new object is put at the end, and a list holds the addresses of its entries.
  An operation on an address that holds no object of the right kind gives \<open>None\<close>.
\<close>

datatype obj = Dict datum | Refs "nat list"

type_synonym store = "obj list"

definition lookup :: "store \<Rightarrow> nat \<Rightarrow> obj option" where
  "lookup h a = (if a < length h then Some (h ! a) else None)"

text \<open>\<^verbatim>\<open>d.copy()\<close>: a new dict with the same entries; the result is its address.\<close>

definition copy_dict :: "store \<Rightarrow> nat \<Rightarrow> (store \<times> nat) option" where
  "copy_dict h a =
     (case lookup h a of Some (Dict d) \<Rightarrow> Some (h @ [Dict d], length h) | _ \<Rightarrow> None)"

text \<open>\<^verbatim>\<open>d[k] = v\<close> on the dict at address \<open>a\<close>.\<close>

definition store_item :: "store \<Rightarrow> nat \<Rightarrow> string \<Rightarrow> val \<Rightarrow> store option" where
  "store_item h a k v =
     (case lookup h a of Some (Dict d) \<Rightarrow> Some (h[a := Dict (set_item d k v)]) | _ \<Rightarrow> None)"

text \<open>\<^verbatim>\<open>data[i]\<close> and \<^verbatim>\<open>data[i] = a\<close> on the list at address \<open>l\<close>.\<close>

definition list_get :: "store \<Rightarrow> nat \<Rightarrow> nat \<Rightarrow> nat option" where
  "list_get h l i =
     (case lookup h l of
        Some (Refs rs) \<Rightarrow> if i < length rs then Some (rs ! i) else None
      | _ \<Rightarrow> None)"

definition list_set :: "store \<Rightarrow> nat \<Rightarrow> nat \<Rightarrow> nat \<Rightarrow> store option" where
  "list_set h l i a =
     (case lookup h l of
        Some (Refs rs) \<Rightarrow> if i < length rs then Some (h[l := Refs (rs[i := a])]) else None
      | _ \<Rightarrow> None)"

text \<open>The body of the loop of \<^verbatim>\<open>map_embeddings\<close> (lines 89 and 90), with \<open>l\<close> the address of
  the caller's list \<^verbatim>\<open>data\<close>:
  \<^verbatim>\<open>data[i] = data[i].copy()\<close> and then \<^verbatim>\<open>data[i][id_field] = b64int(i)\<close>.\<close>

definition assign_step :: "(nat \<Rightarrow> string) \<Rightarrow> string \<Rightarrow> nat \<Rightarrow> nat \<Rightarrow> store \<Rightarrow> store option" where
  "assign_step b64int idf l i h =
     (case list_get h l i of
        None \<Rightarrow> None
      | Some a \<Rightarrow>
          (case copy_dict h a of
             None \<Rightarrow> None
           | Some (h1, a') \<Rightarrow>
               (case list_set h1 l i a' of
                  None \<Rightarrow> None
                | Some h2 \<Rightarrow>
                    (case list_get h2 l i of
                       None \<Rightarrow> None
                     | Some a'' \<Rightarrow> store_item h2 a'' idf (Str (b64int i))))))"

fun assign_loop ::
  "(nat \<Rightarrow> string) \<Rightarrow> string \<Rightarrow> nat \<Rightarrow> nat list \<Rightarrow> store \<Rightarrow> store option" where
  "assign_loop b64int idf l [] h = Some h"
| "assign_loop b64int idf l (i # is) h =
     (case assign_step b64int idf l i h of
        None \<Rightarrow> None
      | Some h' \<Rightarrow> assign_loop b64int idf l is h')"

text \<open>Lines 87 to 90: \<^verbatim>\<open>for i in range(len(data))\<close>.\<close>

definition assign_ids_store :: "(nat \<Rightarrow> string) \<Rightarrow> string \<Rightarrow> nat \<Rightarrow> store \<Rightarrow> store option" where
  "assign_ids_store b64int idf l h =
     (case lookup h l of
        Some (Refs rs) \<Rightarrow> assign_loop b64int idf l [0..<length rs] h
      | _ \<Rightarrow> None)"

text \<open>Lines 248 and 249, and 257 to 259, of \<^verbatim>\<open>map_text\<close>: \<^verbatim>\<open>d = d.copy()\<close> and then
  \<^verbatim>\<open>d[id_field] = b64int(id_to_add)\<close>. The result is the address that goes into the batch.\<close>

definition copy_with_id ::
  "(nat \<Rightarrow> string) \<Rightarrow> string \<Rightarrow> nat \<Rightarrow> nat \<Rightarrow> store \<Rightarrow> (store \<times> nat) option" where
  "copy_with_id b64int idf id_to_add a h =
     (case copy_dict h a of
        None \<Rightarrow> None
      | Some (h1, a') \<Rightarrow>
          (case store_item h1 a' idf (Str (b64int id_to_add)) of
             None \<Rightarrow> None
           | Some h2 \<Rightarrow> Some (h2, a')))"

text \<open>The records \<^verbatim>\<open>map_text\<close> reads, first sample and the rest, by their addresses, when
  identifiers are generated. The result has the addresses put into the batches.\<close>

fun text_ids_store ::
  "(nat \<Rightarrow> string) \<Rightarrow> string \<Rightarrow> nat list \<Rightarrow> nat \<Rightarrow> store \<Rightarrow> (store \<times> nat list) option" where
  "text_ids_store b64int idf [] id_to_add h = Some (h, [])"
| "text_ids_store b64int idf (a # as) id_to_add h =
     (case copy_with_id b64int idf id_to_add a h of
        None \<Rightarrow> None
      | Some (h1, a') \<Rightarrow>
          (case text_ids_store b64int idf as (id_to_add + 1) h1 of
             None \<Rightarrow> None
           | Some (h2, as') \<Rightarrow> Some (h2, a' # as')))"

text \<open>The records a list of addresses stands for.\<close>

definition deref :: "store \<Rightarrow> nat list \<Rightarrow> datum list" where
  "deref h as = map (\<lambda>a. case lookup h a of Some (Dict d) \<Rightarrow> d | _ \<Rightarrow> []) as"

text \<open>A caller's store: one record at address 0 and the list \<^verbatim>\<open>data\<close> at address 1.\<close>

definition caller_store :: store where
  "caller_store = [Dict [(''text'', Str ''a'')], Refs [0]]"

section \<open>Properties of the parts\<close>

lemma with_ids_Nil [simp]: "with_ids b f idf k [] = []"
  by (simp add: with_ids_def)

lemma with_ids_Cons:
  "with_ids b f idf k (x # xs) =
     (if f then set_item x idf (Str (b k)) else x) # with_ids b f idf (Suc k) xs"
proof (cases f)
  case True
  have "[0..<length (x # xs)] = 0 # map Suc [0..<length xs]"
    by (simp add: upt_conv_Cons map_Suc_upt del: upt_Suc)
  then show ?thesis using True by (simp add: with_ids_def comp_def del: upt_Suc)
next
  case False
  then show ?thesis by (simp add: with_ids_def)
qed

lemma sent_append [simp]: "sent (xs @ ys) = sent xs @ sent ys"
  by (induction xs rule: sent.induct) auto

lemma sent_map_Add_text [simp]: "sent (map Add_text bs) = bs"
  by (induction bs) auto

lemma text_loop_trace:
  assumes "length batch < n"
  shows "\<exists>bs. trace (snd (text_loop env b n f idf it batch k st)) = trace st @ map Add_text bs
          \<and> log (snd (text_loop env b n f idf it batch k st)) = log st
          \<and> (\<forall>x\<in>set bs. length x = n)
          \<and> (case fst (text_loop env b n f idf it batch k st) of
                Inr rest \<Rightarrow> concat bs @ rest = batch @ with_ids b f idf k (items it) \<and> length rest < n
              | Inl e \<Rightarrow> prefix (concat bs) (batch @ with_ids b f idf k (items it)))"
  using assms
proof (induction it arbitrary: batch k st)
  case Stop
  then show ?case by (intro exI[of _ "[]"]) simp
next
  case (Raise e)
  then show ?case by (intro exI[of _ "[]"]) simp
next
  case (Yield d it)
  let ?d = "if f then set_item d idf (Str (b k)) else d"
  let ?k = "if f then k + 1 else k"
  let ?batch = "batch @ [?d]"
  have wi: "with_ids b f idf k (items (Yield d it)) = ?d # with_ids b f idf ?k (items it)"
    by (simp add: with_ids_Cons) (simp add: with_ids_def)
  show ?case
  proof (cases "n \<le> length ?batch")
    case full: True
    then have len: "length ?batch = n" using Yield.prems by simp
    show ?thesis
    proof (cases "respond env (trace st) (Add_text ?batch)")
      case None
      let ?st = "st\<lparr>trace := trace st @ [Add_text ?batch]\<rparr>"
      have step: "text_loop env b n f idf (Yield d it) batch k st = text_loop env b n f idf it [] ?k ?st"
        using full None by (simp add: invoke_def Let_def)
      have "length ([]::datum list) < n" using Yield.prems by simp
      from Yield.IH[OF this, of ?k ?st] obtain bs where
        bs: "trace (snd (text_loop env b n f idf it [] ?k ?st)) = trace ?st @ map Add_text bs"
            "log (snd (text_loop env b n f idf it [] ?k ?st)) = log ?st"
            "\<forall>x\<in>set bs. length x = n"
            "(case fst (text_loop env b n f idf it [] ?k ?st) of
                Inr rest \<Rightarrow> concat bs @ rest = [] @ with_ids b f idf ?k (items it) \<and> length rest < n
              | Inl e \<Rightarrow> prefix (concat bs) ([] @ with_ids b f idf ?k (items it)))"
        by blast
      show ?thesis
        apply (rule exI[of _ "?batch # bs"])
        unfolding step wi
        using bs len
        by (auto split: sum.splits)
    next
      case (Some e)
      have step: "text_loop env b n f idf (Yield d it) batch k st
                    = (Inl e, st\<lparr>trace := trace st @ [Add_text ?batch]\<rparr>)"
        using full Some by (simp add: invoke_def Let_def)
      show ?thesis
        apply (rule exI[of _ "[?batch]"])
        unfolding step wi
        using len by simp
    qed
  next
    case False
    then have step: "text_loop env b n f idf (Yield d it) batch k st
                       = text_loop env b n f idf it ?batch ?k st"
      by (simp add: Let_def)
    from False have "length ?batch < n" by simp
    from Yield.IH[OF this, of ?k st] obtain bs where
      bs: "trace (snd (text_loop env b n f idf it ?batch ?k st)) = trace st @ map Add_text bs"
          "log (snd (text_loop env b n f idf it ?batch ?k st)) = log st"
          "\<forall>x\<in>set bs. length x = n"
          "(case fst (text_loop env b n f idf it ?batch ?k st) of
              Inr rest \<Rightarrow> concat bs @ rest = ?batch @ with_ids b f idf ?k (items it) \<and> length rest < n
            | Inl e \<Rightarrow> prefix (concat bs) (?batch @ with_ids b f idf ?k (items it)))"
      by blast
    show ?thesis
      apply (rule exI[of _ bs])
      unfolding step wi
      using bs by (auto split: sum.splits)
  qed
qed

lemma raised_append: "raised env prev (xs @ ys) = raised env prev xs @ raised env (prev @ xs) ys"
  by (induction xs arbitrary: prev) auto

lemma raised_snoc:
  "raised env [] (tr @ [c]) =
     raised env [] tr @ (case respond env tr c of None \<Rightarrow> [] | Some e \<Rightarrow> [(c, e)])"
  by (simp add: raised_append)

lemma invoke_trace [simp]: "trace (snd (invoke env c st)) = trace st @ [c]"
  by (simp add: invoke_def)

lemma invoke_log [simp]: "log (snd (invoke env c st)) = log st"
  by (simp add: invoke_def)

lemma invoke_raised:
  "raised env [] (trace (snd (invoke env c st))) =
     raised env [] (trace st) @ (case fst (invoke env c st) of Inl e \<Rightarrow> [(c, e)] | Inr _ \<Rightarrow> [])"
  by (simp add: invoke_def raised_snoc split: option.splits)

lemma text_loop_raised:
  "case fst (text_loop env b n f idf it batch k st) of
     Inr rest \<Rightarrow>
       raised env [] (trace (snd (text_loop env b n f idf it batch k st))) = raised env [] (trace st)
       \<and> ending it = None
   | Inl e \<Rightarrow>
       (raised env [] (trace (snd (text_loop env b n f idf it batch k st))) = raised env [] (trace st)
        \<and> ending it = Some e)
       \<or> (\<exists>x. raised env [] (trace (snd (text_loop env b n f idf it batch k st)))
                 = raised env [] (trace st) @ [(Add_text x, e)])"
proof (induction it arbitrary: batch k st)
  case Stop
  then show ?case by simp
next
  case (Raise e)
  then show ?case by simp
next
  case (Yield d it)
  let ?d = "if f then set_item d idf (Str (b k)) else d"
  let ?k = "if f then k + 1 else k"
  let ?batch = "batch @ [?d]"
  show ?case
  proof (cases "n \<le> length ?batch")
    case full: True
    show ?thesis
    proof (cases "respond env (trace st) (Add_text ?batch)")
      case None
      let ?st = "st\<lparr>trace := trace st @ [Add_text ?batch]\<rparr>"
      have step: "text_loop env b n f idf (Yield d it) batch k st = text_loop env b n f idf it [] ?k ?st"
        using full None by (simp add: invoke_def Let_def)
      have r: "raised env [] (trace ?st) = raised env [] (trace st)"
        using None by (simp add: raised_snoc)
      show ?thesis
        unfolding step using Yield.IH[of "[]" ?k ?st] r by (auto split: sum.splits)
    next
      case (Some e)
      have step: "text_loop env b n f idf (Yield d it) batch k st
                    = (Inl e, st\<lparr>trace := trace st @ [Add_text ?batch]\<rparr>)"
        using full Some by (simp add: invoke_def Let_def)
      show ?thesis
        unfolding step using Some by (simp add: raised_snoc)
    qed
  next
    case False
    then have step: "text_loop env b n f idf (Yield d it) batch k st
                       = text_loop env b n f idf it ?batch ?k st"
      by (simp add: Let_def)
    show ?thesis
      unfolding step using Yield.IH[of ?batch ?k st] by (auto split: sum.splits)
  qed
qed

text \<open>Summary of the try body.\<close>

lemma text_upload_sized_trace:
  assumes "0 < n" "1 < n"
  shows "\<exists>bs. trace (snd (text_upload_sized env b n f idf x it st)) = trace st @ map Add_text bs
          \<and> log (snd (text_upload_sized env b n f idf x it st)) = log st
          \<and> (\<forall>y\<in>set bs. length y \<le> n)
          \<and> (\<forall>y\<in>set (butlast bs). length y = n)
          \<and> (case fst (text_upload_sized env b n f idf x it st) of
                Inr _ \<Rightarrow> concat bs = with_ids b f idf 0 (x # items it)
              | Inl e \<Rightarrow> prefix (concat bs) (with_ids b f idf 0 (x # items it)))"
proof -
  let ?x = "if f then set_item x idf (Str (b 0)) else x"
  let ?k = "if f then 0 + 1 else (0::nat)"
  let ?L = "text_loop env b n f idf it [?x] ?k st"
  have wi: "with_ids b f idf 0 (x # items it) = [?x] @ with_ids b f idf ?k (items it)"
    by (simp add: with_ids_Cons) (simp add: with_ids_def)
  have "length [?x] < n" using assms by simp
  from text_loop_trace[OF this, of env b f idf it ?k st] obtain bs where
    bs: "trace (snd ?L) = trace st @ map Add_text bs"
        "log (snd ?L) = log st"
        "\<forall>y\<in>set bs. length y = n"
        "(case fst ?L of
            Inr rest \<Rightarrow> concat bs @ rest = [?x] @ with_ids b f idf ?k (items it) \<and> length rest < n
          | Inl e \<Rightarrow> prefix (concat bs) ([?x] @ with_ids b f idf ?k (items it)))"
    by blast
  obtain r st' where L: "?L = (r, st')" by (cases ?L)
  show ?thesis
  proof (cases r)
    case (Inl e)
    have u: "text_upload_sized env b n f idf x it st = (Inl e, st')"
      using L Inl by (simp add: text_upload_sized_def Let_def)
    show ?thesis
      apply (rule exI[of _ bs])
      unfolding u wi
      using bs L Inl by (auto dest: in_set_butlastD)
  next
    case (Inr rest)
    show ?thesis
    proof (cases "rest = []")
      case True
      have u: "text_upload_sized env b n f idf x it st = (Inr (), st')"
        using L Inr True by (simp add: text_upload_sized_def Let_def)
      show ?thesis
        apply (rule exI[of _ bs])
        unfolding u wi
        using bs L Inr True by (auto dest: in_set_butlastD)
    next
      case False
      have u: "text_upload_sized env b n f idf x it st = invoke env (Add_text rest) st'"
        using L Inr False by (simp add: text_upload_sized_def Let_def)
      show ?thesis
        apply (rule exI[of _ "bs @ [rest]"])
        unfolding u wi
        using bs L Inr False by (auto simp: invoke_def butlast_append split: sum.splits option.splits)
    qed
  qed
qed


lemma text_upload_sized_raised:
  "case fst (text_upload_sized env b n f idf x it st) of
     Inr _ \<Rightarrow>
       raised env [] (trace (snd (text_upload_sized env b n f idf x it st))) = raised env [] (trace st)
       \<and> ending it = None
   | Inl e \<Rightarrow>
       (raised env [] (trace (snd (text_upload_sized env b n f idf x it st))) = raised env [] (trace st)
        \<and> ending it = Some e)
       \<or> (\<exists>y. raised env [] (trace (snd (text_upload_sized env b n f idf x it st)))
                 = raised env [] (trace st) @ [(Add_text y, e)])"
proof -
  let ?x = "if f then set_item x idf (Str (b 0)) else x"
  let ?k = "if f then 0 + 1 else (0::nat)"
  let ?L = "text_loop env b n f idf it [?x] ?k st"
  note lr = text_loop_raised[of env b n f idf it "[?x]" ?k st]
  obtain r st' where L: "?L = (r, st')" by (cases ?L)
  show ?thesis
  proof (cases r)
    case (Inl e)
    have u: "text_upload_sized env b n f idf x it st = (Inl e, st')"
      using L Inl by (simp add: text_upload_sized_def Let_def)
    show ?thesis unfolding u using lr L Inl by simp
  next
    case (Inr rest)
    show ?thesis
    proof (cases "rest = []")
      case True
      have u: "text_upload_sized env b n f idf x it st = (Inr (), st')"
        using L Inr True by (simp add: text_upload_sized_def Let_def)
      show ?thesis unfolding u using lr L Inr by simp
    next
      case False
      have u: "text_upload_sized env b n f idf x it st = invoke env (Add_text rest) st'"
        using L Inr False by (simp add: text_upload_sized_def Let_def)
      show ?thesis
        unfolding u using lr L Inr invoke_raised[of env "Add_text rest" st']
        by (auto split: sum.splits)
    qed
  qed
qed

lemma on_failure_Inr [simp]: "on_failure env pn n (Inr u, st) = (Inr u, st)"
  by (simp add: on_failure_def)

lemma on_failure_old [simp]: "n \<noteq> 0 \<Longrightarrow> on_failure env pn n (Inl e, st) = (Inl e, st)"
  by (simp add: on_failure_def)

lemma on_failure_fresh:
  "on_failure env pn 0 (Inl e, st) =
     (Inl (case respond env (trace st) Delete of None \<Rightarrow> e | Some e' \<Rightarrow> e'),
      st\<lparr>trace := trace st @ [Delete],
         log := log st @ [(INFO, pn @ '': Deleting dataset due to failure in initial upload.'')]\<rparr>)"
  by (simp add: on_failure_def invoke_def logger_def split: option.splits)

lemma after_upload_trace:
  "trace (snd (after_upload env lp n kw p st)) =
     trace st @ (let c = (if n = 0 then Create_index kw else Rebuild_maps)
                 in c # (case respond env (trace st) c of None \<Rightarrow> [Latest_project_state] | Some e \<Rightarrow> []))"
  by (simp add: after_upload_def invoke_def logger_def Let_def split: option.splits)

lemma after_upload_result:
  "fst (after_upload env lp n kw p st) =
     (let c = (if n = 0 then Create_index kw else Rebuild_maps)
      in case respond env (trace st) c of
           Some e \<Rightarrow> Inl e
         | None \<Rightarrow> (case respond env (trace st @ [c]) Latest_project_state of
                       Some e \<Rightarrow> Inl e | None \<Rightarrow> Inr (Some p)))"
  by (simp add: after_upload_def invoke_def logger_def Let_def split: option.splits)

lemma map_text_Raise: "map_text env b rn (Raise e) a st = (Inl e, st)"
  by (simp add: map_text_def)

lemma map_text_Stop:
  "map_text env b rn Stop a st =
     (Inr None, logger WARNING ''Passed data has no samples. No dataset will be created'' st)"
  by (simp add: map_text_def)

lemma map_text_ctor_fails:
  "respond env (trace st) (text_ctor rn a) = Some e \<Longrightarrow>
   map_text env b rn (Yield x it) a st = (Inl e, st\<lparr>trace := trace st @ [text_ctor rn a]\<rparr>)"
  by (simp add: map_text_def text_ctor_def invoke_def Let_def)

lemma map_text_invalid:
  "respond env (trace st) (text_ctor rn a) = None \<Longrightarrow>
   validate_map_data_inputs env (colorable_fields a) (id_field_of a) x = Some e \<Longrightarrow>
   fst (map_text env b rn (Yield x it) a st) = Inl e \<and>
   trace (snd (map_text env b rn (Yield x it) a st)) = trace st @ [text_ctor rn a]"
  by (simp add: map_text_def text_ctor_def invoke_def Let_def logger_def)

lemma trace_logger [simp]: "trace (logger l m st) = trace st"
  by (simp add: logger_def)

lemma trace_deprecations [simp]: "trace (deprecations m1 m2 s w st) = trace st"
  by (simp add: deprecations_def Let_def)

lemma trace_text_begin [simp]: "trace (text_begin rn a x st) = trace st @ [text_ctor rn a]"
  by (simp add: text_begin_def Let_def)

lemma map_text_reach:
  assumes "respond env (trace st) (text_ctor rn a) = None"
    and "validate_map_data_inputs env (colorable_fields a) (id_field_of a) x = None"
  shows "map_text env b rn (Yield x it) a st =
             (case on_failure env (name_of rn a) (total_datums env)
                     (text_upload env b (text_add_id a x) (id_field_of a) x it (text_begin rn a x st)) of
                (Inl e, st5) \<Rightarrow> (Inl e, st5)
              | (Inr _, st5) \<Rightarrow>
                  after_upload env True (total_datums env) (text_index_kwargs (name_of rn a) a)
                    (Project (text_dataset_kwargs (name_of rn a) (description_of a) (id_field_of a) a))
                    (logger INFO ''Text upload succeeded.'' st5))"
proof -
  have "text_add_id a x \<or> \<not> text_add_id a x" by simp
  then show ?thesis
    using assms
    by (auto simp add: map_text_def text_ctor_def invoke_def Let_def text_add_id_def text_begin_def
        simp del: on_failure_Inr on_failure_old)
qed

lemma text_upload_trace:
  "\<exists>bs. trace (snd (text_upload env b f idf x it st)) = trace st @ map Add_text bs
          \<and> log (snd (text_upload env b f idf x it st)) = log st
          \<and> (\<forall>y\<in>set bs. length y \<le> 100000)
          \<and> (\<forall>y\<in>set (butlast bs). length y = 100000)
          \<and> (case fst (text_upload env b f idf x it st) of
                Inr _ \<Rightarrow> concat bs = with_ids b f idf 0 (x # items it)
              | Inl e \<Rightarrow> prefix (concat bs) (with_ids b f idf 0 (x # items it)))"
  unfolding text_upload_def by (rule text_upload_sized_trace) simp_all

lemmas text_upload_raised =
  text_upload_sized_raised[of env b 100000 f idf x it st, folded text_upload_def]
  for env b f idf x it st

text \<open>The tail of a run of \<^verbatim>\<open>map_text\<close> after the try block.\<close>

lemma map_text_finish:
  assumes "respond env (trace st) (text_ctor rn a) = None"
    and "validate_map_data_inputs env (colorable_fields a) (id_field_of a) x = None"
    and "text_upload env b (text_add_id a x) (id_field_of a) x it (text_begin rn a x st) = (r, st5)"
  shows "r = Inr () \<Longrightarrow>
           (let c = (if total_datums env = 0 then Create_index (text_index_kwargs (name_of rn a) a)
                     else Rebuild_maps)
            in trace (snd (map_text env b rn (Yield x it) a st)) =
                 trace st5 @ c # (case respond env (trace st5) c of
                                    None \<Rightarrow> [Latest_project_state] | Some e \<Rightarrow> []))"
    and "r = Inl e \<Longrightarrow> total_datums env = 0 \<Longrightarrow>
           trace (snd (map_text env b rn (Yield x it) a st)) = trace st5 @ [Delete] \<and>
           fst (map_text env b rn (Yield x it) a st) =
             Inl (case respond env (trace st5) Delete of None \<Rightarrow> e | Some e' \<Rightarrow> e')"
    and "r = Inl e \<Longrightarrow> total_datums env \<noteq> 0 \<Longrightarrow>
           map_text env b rn (Yield x it) a st = (Inl e, st5)"
proof -
  note reach = map_text_reach[OF assms(1,2), of b it]
  show "r = Inr () \<Longrightarrow>
           (let c = (if total_datums env = 0 then Create_index (text_index_kwargs (name_of rn a) a)
                     else Rebuild_maps)
            in trace (snd (map_text env b rn (Yield x it) a st)) =
                 trace st5 @ c # (case respond env (trace st5) c of
                                    None \<Rightarrow> [Latest_project_state] | Some e \<Rightarrow> []))"
    unfolding reach assms(3) by (simp add: after_upload_trace)
  show "r = Inl e \<Longrightarrow> total_datums env = 0 \<Longrightarrow>
           trace (snd (map_text env b rn (Yield x it) a st)) = trace st5 @ [Delete] \<and>
           fst (map_text env b rn (Yield x it) a st) =
             Inl (case respond env (trace st5) Delete of None \<Rightarrow> e | Some e' \<Rightarrow> e')"
    unfolding reach assms(3) by (simp add: on_failure_fresh)
  show "r = Inl e \<Longrightarrow> total_datums env \<noteq> 0 \<Longrightarrow>
           map_text env b rn (Yield x it) a st = (Inl e, st5)"
    unfolding reach assms(3) by simp
qed

text \<open>The batches of a whole run are the batches of its try block.\<close>

lemma sent_map_text:
  "sent (trace (snd (map_text env b rn data a init))) =
     (case data of
        Yield x it \<Rightarrow>
          if respond env [] (text_ctor rn a) = None \<and>
             validate_map_data_inputs env (colorable_fields a) (id_field_of a) x = None
          then sent (trace (snd (text_upload env b (text_add_id a x) (id_field_of a) x it
                                   (text_begin rn a x init))))
          else []
      | _ \<Rightarrow> [])"
proof (cases data)
  case Stop
  then show ?thesis by (simp add: map_text_Stop init_def)
next
  case (Raise e)
  then show ?thesis by (simp add: map_text_Raise init_def)
next
  case (Yield x it)
  have tr0: "trace init = []" by (simp add: init_def)
  show ?thesis
  proof (cases "respond env [] (text_ctor rn a)")
    case (Some e)
    then show ?thesis using Yield map_text_ctor_fails[of env init rn a e b x it]
      by (simp add: tr0 text_ctor_def)
  next
    case None
    show ?thesis
    proof (cases "validate_map_data_inputs env (colorable_fields a) (id_field_of a) x")
      case (Some e)
      then show ?thesis using Yield None map_text_invalid[of env init rn a x e b it]
        by (simp add: tr0 text_ctor_def)
    next
      case vok: None
      obtain r st5 where T: "text_upload env b (text_add_id a x) (id_field_of a) x it
                               (text_begin rn a x init) = (r, st5)"
        by (cases "text_upload env b (text_add_id a x) (id_field_of a) x it (text_begin rn a x init)")
      have c: "respond env (trace init) (text_ctor rn a) = None" using None by (simp add: tr0)
      note fin = map_text_finish[OF c vok T]
      show ?thesis
      proof (cases r)
        case (Inr u)
        then have "r = Inr ()" by simp
        from fin(1)[OF this] show ?thesis using Yield None vok T
          by (simp add: Let_def split: option.splits)
      next
        case (Inl e)
        show ?thesis
        proof (cases "total_datums env = 0")
          case True
          from fin(2)[OF Inl True] show ?thesis using Yield None vok T by simp
        next
          case False
          from fin(3)[OF Inl False] show ?thesis using Yield None vok T by simp
        qed
      qed
    qed
  qed
qed


section \<open>Evaluating the examples\<close>

lemmas example_defs = unary_def ok_remote_def example_options_def example_text_options_def
  example_embeddings_options_def example_data_def options.extend_def

lemmas run_defs = map_text_def map_embeddings_def id_field_of_def description_of_def name_of_def
  ATLAS_DEFAULT_ID_FIELD_def has_key_def set_item_def invoke_def logger_def deprecations_def
  text_upload_def text_upload_sized_def on_failure_def after_upload_def text_dataset_kwargs_def
  text_index_kwargs_def init_def Let_def

lemma example_text_run:
  "sent (trace (snd (map_text ok_remote unary ''rnd'' (iter example_data) example_text_options init)))
     = [[[(''text'', Str ''a''), (''id_'', Str '''')], [(''text'', Str ''b''), (''id_'', Str ''A'')]]]"
  by (simp add: example_defs run_defs)

section \<open>Batches of the text path\<close>

text \<open>Claim C3. Every batch that \<^verbatim>\<open>map_text\<close> passes to \<^verbatim>\<open>add_text\<close> has at most 100000
  records, and every batch but the last has exactly 100000. This holds for every input
  and every behaviour of the remote side, also when a call raises.\<close>

theorem map_text_batch_sizes:
  "(\<forall>y \<in> set (sent (trace (snd (map_text env b64int random_name data a init)))).
      length y \<le> 100000) \<and>
   (\<forall>y \<in> set (butlast (sent (trace (snd (map_text env b64int random_name data a init))))).
      length y = 100000)"
proof (cases data)
  case (Yield x it)
  let ?st = "text_begin random_name a x init"
  let ?T = "text_upload env b64int (text_add_id a x) (id_field_of a) x it ?st"
  from text_upload_trace[of env b64int "text_add_id a x" "id_field_of a" x it ?st]
  obtain bs where bs: "trace (snd ?T) = trace ?st @ map Add_text bs"
    "\<forall>y\<in>set bs. length y \<le> 100000" "\<forall>y\<in>set (butlast bs). length y = 100000"
    by blast
  have "sent (trace (snd ?T)) = bs"
    using bs(1) by (simp add: init_def text_ctor_def)
  then show ?thesis
    using bs(2,3) Yield by (simp add: sent_map_text)
qed (simp_all add: sent_map_text)

text \<open>The theorem at the example input, where one batch of two records is sent.\<close>

theorem map_text_batch_sizes_witness:
  "sent (trace (snd (map_text ok_remote unary ''rnd'' (iter example_data) example_text_options init)))
     = [[[(''text'', Str ''a''), (''id_'', Str '''')], [(''text'', Str ''b''), (''id_'', Str ''A'')]]]
   \<and> length [[(''text'', Str ''a''), (''id_'', Str '''')], [(''text'', Str ''b''), (''id_'', Str ''A'')]]
       \<le> (100000::nat)"
  using map_text_batch_sizes[of ok_remote unary "''rnd''" "iter example_data" example_text_options]
  by (simp add: example_text_run)

lemma raised_calls: "fst ` set (raised env prev cs) \<subseteq> set cs"
  by (induction cs arbitrary: prev) (auto split: option.splits)

lemma add_errors_tail:
  assumes "\<forall>c\<in>set tail. \<not> is_add c"
  shows "add_errors env (tr @ tail) = add_errors env tr"
proof -
  have "filter (\<lambda>ce. is_add (fst ce)) (raised env tr tail) = []"
    using assms raised_calls[of env tr tail] by (auto simp: filter_empty_conv)
  then show ?thesis by (simp add: add_errors_def raised_append)
qed

lemma deletes_append [simp]: "deletes (xs @ ys) = deletes xs + deletes ys"
  by (simp add: deletes_def)

lemma deletes_Add_text [simp]: "deletes (map Add_text bs) = 0"
  by (simp add: deletes_def)

lemma ending_iter [simp]: "ending (iter xs) = None"
  by (induction xs) auto

lemma items_iter [simp]: "items (iter xs) = xs"
  by (induction xs) auto

lemma trace_init [simp]: "trace init = []"
  by (simp add: init_def)

text \<open>How the try block of \<^verbatim>\<open>map_text\<close> can end, for a run that reaches it.\<close>

lemma map_text_upload_cases:
  assumes c: "respond env [] (text_ctor rn a) = None"
    and v: "validate_map_data_inputs env (colorable_fields a) (id_field_of a) x = None"
  obtains
    (ok) "fst (text_upload env b (text_add_id a x) (id_field_of a) x it (text_begin rn a x init)) = Inr ()"
         "ending it = None"
         "add_errors env (trace (snd (map_text env b rn (Yield x it) a init))) = []"
  | (iter_raised) e where
         "fst (text_upload env b (text_add_id a x) (id_field_of a) x it (text_begin rn a x init)) = Inl e"
         "ending it = Some e"
         "add_errors env (trace (snd (map_text env b rn (Yield x it) a init))) = []"
  | (add_raised) e where
         "fst (text_upload env b (text_add_id a x) (id_field_of a) x it (text_begin rn a x init)) = Inl e"
         "add_errors env (trace (snd (map_text env b rn (Yield x it) a init))) = [e]"
proof -
  let ?st = "text_begin rn a x init"
  let ?T = "text_upload env b (text_add_id a x) (id_field_of a) x it ?st"
  let ?M = "map_text env b rn (Yield x it) a init"
  obtain r st5 where T: "?T = (r, st5)" by (cases ?T)
  have c': "respond env (trace init) (text_ctor rn a) = None" using c by simp
  note fin = map_text_finish[OF c' v T]
  have r0: "raised env [] (trace ?st) = []" using c by simp
  \<comment> \<open>the calls after the try block are not add calls\<close>
  have tail: "\<exists>tail. trace (snd ?M) = trace st5 @ tail \<and> (\<forall>c\<in>set tail. \<not> is_add c)"
  proof (cases r)
    case (Inr u)
    then have "r = Inr ()" by simp
    from fin(1)[OF this] show ?thesis by (auto simp: Let_def split: option.splits)
  next
    case (Inl e)
    show ?thesis
    proof (cases "total_datums env = 0")
      case True
      from fin(2)[OF Inl True] show ?thesis by auto
    next
      case False
      from fin(3)[OF Inl False] show ?thesis by auto
    qed
  qed
  then have ae: "add_errors env (trace (snd ?M)) = add_errors env (trace st5)"
    by (auto simp: add_errors_tail)
  note ur = text_upload_raised[of env b "text_add_id a x" "id_field_of a" x it ?st]
  show ?thesis
  proof (cases r)
    case (Inr u)
    then have "add_errors env (trace st5) = []" "ending it = None"
      using ur T r0 by (simp_all add: add_errors_def)
    then show ?thesis using ok T Inr ae by simp
  next
    case (Inl e)
    then consider "raised env [] (trace st5) = []" "ending it = Some e"
      | y where "raised env [] (trace st5) = [(Add_text y, e)]"
      using ur T r0 by auto
    then show ?thesis
    proof cases
      case 1
      then show ?thesis using iter_raised[of e] T Inl ae by (simp add: add_errors_def)
    next
      case 2
      then show ?thesis using add_raised[of e] T Inl ae by (simp add: add_errors_def)
    qed
  qed
qed

text \<open>With no failing call, the try block sends every record.\<close>

lemma sent_all_records:
  assumes "respond env [] (text_ctor random_name a) = None"
    and "validate_map_data_inputs env (colorable_fields a) (id_field_of a) x = None"
    and "add_errors env (trace (snd (map_text env b64int random_name (iter (x # xs)) a init))) = []"
  shows "concat (sent (trace (snd (map_text env b64int random_name (iter (x # xs)) a init)))) =
           with_ids b64int (text_add_id a x) (id_field_of a) 0 (x # xs)"
proof -
  let ?st = "text_begin random_name a x init"
  let ?T = "text_upload env b64int (text_add_id a x) (id_field_of a) x (iter xs) ?st"
  from text_upload_trace[of env b64int "text_add_id a x" "id_field_of a" x "iter xs" ?st]
  obtain bs where bs: "trace (snd ?T) = trace ?st @ map Add_text bs"
    "case fst ?T of
       Inr _ \<Rightarrow> concat bs = with_ids b64int (text_add_id a x) (id_field_of a) 0 (x # items (iter xs))
     | Inl e \<Rightarrow> prefix (concat bs)
                 (with_ids b64int (text_add_id a x) (id_field_of a) 0 (x # items (iter xs)))"
    by blast
  have s: "sent (trace (snd (map_text env b64int random_name (iter (x # xs)) a init))) = bs"
    using bs(1) assms(1,2) by (simp add: sent_map_text text_ctor_def)
  from assms(1,2) have "fst ?T = Inr ()"
  proof (cases rule: map_text_upload_cases[of env random_name a x b64int "iter xs"])
    case ok
    then show ?thesis by simp
  next
    case (iter_raised e)
    then show ?thesis by simp
  next
    case (add_raised e)
    then show ?thesis using assms(3) by simp
  qed
  then show ?thesis using bs(2) s by simp
qed

text \<open>Claim C4. When the dataset is opened, the first record passes validation and no
  \<^verbatim>\<open>add_text\<close> call raises, the batches of \<^verbatim>\<open>map_text\<close>, concatenated in the order they are
  sent, are the input sequence with its identifiers: nothing is dropped, repeated or
  reordered, the first record included.\<close>

theorem map_text_batches_concat:
  assumes "respond env [] (text_ctor random_name a) = None"
    and "validate_map_data_inputs env (colorable_fields a) (id_field_of a) x = None"
    and "add_errors env (trace (snd (map_text env b64int random_name (iter (x # xs)) a init))) = []"
  shows "concat (sent (trace (snd (map_text env b64int random_name (iter (x # xs)) a init)))) =
           with_ids b64int (text_add_id a x) (id_field_of a) 0 (x # xs)"
  using assms by (rule sent_all_records)

lemma raised_ok_remote [simp]: "raised ok_remote prev tr = []"
  by (induction tr arbitrary: prev) (auto simp: ok_remote_def)

lemma example_text_trace:
  "trace (snd (map_text ok_remote unary ''rnd'' (iter example_data) example_text_options init)) =
     [AtlasDataset
        [(''name'', AStr ''rnd''), (''description'', AStr ''A description for your map.''),
         (''unique_id_field'', AStr ''id_''), (''modality'', AStr ''text''),
         (''is_public'', ABool True), (''reset_project_if_exists'', ABool False),
         (''add_datums_if_exists'', ABool False)],
      Add_text [[(''text'', Str ''a''), (''id_'', Str [])], [(''text'', Str ''b''), (''id_'', Str ''A'')]],
      Create_index
        [(''name'', AStr ''rnd''), (''indexed_field'', AStr ''text''),
         (''colorable_fields'', AStrs []), (''build_topic_model'', ABool True),
         (''projection_n_neighbors'', AInt 15), (''projection_epochs'', AInt 50),
         (''projection_spread'', AFloat 1), (''duplicate_detection'', ABool True),
         (''duplicate_threshold'', AFloat 0)],
      Latest_project_state]"
  by (simp add: example_defs run_defs)

text \<open>The theorem at the example input.\<close>

theorem map_text_batches_concat_witness:
  "add_errors ok_remote
     (trace (snd (map_text ok_remote unary ''rnd'' (iter example_data) example_text_options init))) = []
   \<and> concat (sent (trace (snd (map_text ok_remote unary ''rnd'' (iter example_data)
                                  example_text_options init)))) =
       [[(''text'', Str ''a''), (''id_'', Str [])], [(''text'', Str ''b''), (''id_'', Str ''A'')]]"
proof -
  let ?x = "[(''text'', Str ''a'')]"
  let ?xs = "[[(''text'', Str ''b'')]]"
  have h1: "respond ok_remote [] (text_ctor ''rnd'' example_text_options) = None"
    by (simp add: ok_remote_def)
  have h2: "validate_map_data_inputs ok_remote (colorable_fields example_text_options)
              (id_field_of example_text_options) ?x = None"
    by (simp add: ok_remote_def)
  have h3: "add_errors ok_remote
              (trace (snd (map_text ok_remote unary ''rnd'' (iter (?x # ?xs)) example_text_options init))) = []"
    by (simp add: add_errors_def)
  have w: "with_ids unary (text_add_id example_text_options ?x) (id_field_of example_text_options) 0 (?x # ?xs)
             = [[(''text'', Str ''a''), (''id_'', Str [])], [(''text'', Str ''b''), (''id_'', Str ''A'')]]"
    by (simp add: with_ids_def text_add_id_def example_defs id_field_of_def ATLAS_DEFAULT_ID_FIELD_def
        has_key_def set_item_def upt_rec[of 0] upt_rec[of 1])
  show ?thesis
    using map_text_batches_concat[OF h1 h2 h3] h3 w by (simp add: example_data_def)
qed

text \<open>The loop of \<^verbatim>\<open>map_embeddings\<close> computes the identifiers position by position.\<close>

lemma assign_ids_fold:
  "n \<le> length xs \<Longrightarrow>
   fold (\<lambda>i data. data[i := set_item (data ! i) idf (Str (b i))]) [0..<n] xs =
     map (\<lambda>i. if i < n then set_item (xs ! i) idf (Str (b i)) else xs ! i) [0..<length xs]"
proof (induction n)
  case 0
  then show ?case by (simp add: map_nth)
next
  case (Suc n)
  then have IH: "fold (\<lambda>i data. data[i := set_item (data ! i) idf (Str (b i))]) [0..<n] xs =
     map (\<lambda>i. if i < n then set_item (xs ! i) idf (Str (b i)) else xs ! i) [0..<length xs]"
    by simp
  show ?case
    using Suc.prems
    by (simp add: IH) (rule nth_equalityI, auto simp: nth_list_update less_Suc_eq)
qed

lemma assign_ids_eq: "assign_ids b idf xs = with_ids b True idf 0 xs"
  by (simp add: assign_ids_def assign_ids_fold with_ids_def)

lemma prepare_data_assigns:
  assumes "idf = ATLAS_DEFAULT_ID_FIELD" "\<not> has_key x ATLAS_DEFAULT_ID_FIELD"
  shows "prepare_data b idf e (Some (x # xs)) = Inr (with_ids b True idf 0 (x # xs), True)"
  using assms by (simp add: prepare_data_def assign_ids_eq)

lemma map_embeddings_empty:
  "size_of e = 0 \<Longrightarrow>
   map_embeddings env b rn e data a st = (Inl (Exception ''Your embeddings cannot be empty''), st)"
  by (simp add: map_embeddings_def)

lemma trace_emb_begin [simp]: "trace (emb_begin rn a added st) = trace st @ [emb_ctor rn a]"
  by (simp add: emb_begin_def Let_def)

lemma map_embeddings_reach:
  assumes "size_of e \<noteq> 0"
    and "prepare_data b (id_field_of a) e data = Inr (d, added)"
    and "respond env (trace st) (emb_ctor rn a) = None"
  shows "map_embeddings env b rn e data a st =
           (case on_failure env (name_of rn a) (total_datums env)
                   (invoke env (Add_embeddings e d) (emb_begin rn a added st)) of
              (Inl ex, st5) \<Rightarrow> (Inl ex, st5)
            | (Inr _, st5) \<Rightarrow>
                after_upload env False (total_datums env) (embeddings_index_kwargs (name_of rn a) a)
                  (Project (embeddings_dataset_kwargs (name_of rn a) (description_of a) (id_field_of a) a))
                  (logger INFO ''Embedding upload succeeded.'' st5))"
proof -
  have "added \<or> \<not> added" by simp
  then show ?thesis
    using assms
    by (auto simp add: map_embeddings_def emb_ctor_def emb_begin_def Let_def logger_def
        invoke_def[of env "AtlasDataset _"]
        simp del: on_failure_Inr on_failure_old)
qed

lemma map_embeddings_run:
  assumes "size_of e \<noteq> 0"
    and "prepare_data b (id_field_of a) e data = Inr (d, added)"
    and "respond env [] (emb_ctor rn a) = None"
  shows "respond env [emb_ctor rn a] (Add_embeddings e d) = None \<Longrightarrow>
           (let c = (if total_datums env = 0
                     then Create_index (embeddings_index_kwargs (name_of rn a) a) else Rebuild_maps)
            in trace (snd (map_embeddings env b rn e data a init)) =
                 [emb_ctor rn a, Add_embeddings e d, c] @
                 (case respond env [emb_ctor rn a, Add_embeddings e d] c of
                    None \<Rightarrow> [Latest_project_state] | Some ex \<Rightarrow> []))"
    and "respond env [emb_ctor rn a] (Add_embeddings e d) = Some ex \<Longrightarrow> total_datums env = 0 \<Longrightarrow>
           trace (snd (map_embeddings env b rn e data a init)) =
             [emb_ctor rn a, Add_embeddings e d, Delete] \<and>
           fst (map_embeddings env b rn e data a init) =
             Inl (case respond env [emb_ctor rn a, Add_embeddings e d] Delete of
                    None \<Rightarrow> ex | Some e' \<Rightarrow> e')"
    and "respond env [emb_ctor rn a] (Add_embeddings e d) = Some ex \<Longrightarrow> total_datums env \<noteq> 0 \<Longrightarrow>
           trace (snd (map_embeddings env b rn e data a init)) = [emb_ctor rn a, Add_embeddings e d] \<and>
           fst (map_embeddings env b rn e data a init) = Inl ex"
proof -
  have c: "respond env (trace init) (emb_ctor rn a) = None" using assms(3) by simp
  note reach = map_embeddings_reach[OF assms(1,2) c]
  show "respond env [emb_ctor rn a] (Add_embeddings e d) = None \<Longrightarrow>
           (let c = (if total_datums env = 0
                     then Create_index (embeddings_index_kwargs (name_of rn a) a) else Rebuild_maps)
            in trace (snd (map_embeddings env b rn e data a init)) =
                 [emb_ctor rn a, Add_embeddings e d, c] @
                 (case respond env [emb_ctor rn a, Add_embeddings e d] c of
                    None \<Rightarrow> [Latest_project_state] | Some ex \<Rightarrow> []))"
    unfolding reach by (simp add: invoke_def after_upload_trace)
  show "respond env [emb_ctor rn a] (Add_embeddings e d) = Some ex \<Longrightarrow> total_datums env = 0 \<Longrightarrow>
           trace (snd (map_embeddings env b rn e data a init)) =
             [emb_ctor rn a, Add_embeddings e d, Delete] \<and>
           fst (map_embeddings env b rn e data a init) =
             Inl (case respond env [emb_ctor rn a, Add_embeddings e d] Delete of
                    None \<Rightarrow> ex | Some e' \<Rightarrow> e')"
    unfolding reach by (simp add: invoke_def on_failure_fresh)
  show "respond env [emb_ctor rn a] (Add_embeddings e d) = Some ex \<Longrightarrow> total_datums env \<noteq> 0 \<Longrightarrow>
           trace (snd (map_embeddings env b rn e data a init)) = [emb_ctor rn a, Add_embeddings e d] \<and>
           fst (map_embeddings env b rn e data a init) = Inl ex"
    unfolding reach by (simp add: invoke_def)
qed

lemma with_ids_True:
  "with_ids b True idf 0 xs = map (\<lambda>i. set_item (xs ! i) idf (Str (b i))) [0..<length xs]"
  by (simp add: with_ids_def)

lemma map_of_set_item [simp]: "map_of (set_item d k v) k = Some v"
  by (simp add: set_item_def update_conv')

lemma distinct_with_ids:
  assumes "inj b"
  shows "distinct (map (\<lambda>d. map_of d idf) (with_ids b True idf k xs))"
proof -
  have "map (\<lambda>d. map_of d idf) (with_ids b True idf k xs) =
          map (\<lambda>i. Some (Str (b (k + i)))) [0..<length xs]"
    by (simp add: with_ids_def)
  moreover have "inj_on (\<lambda>i. Some (Str (b (k + i)))) (set [0..<length xs])"
  proof (rule inj_onI)
    fix i j
    assume "Some (Str (b (k + i))) = Some (Str (b (k + j)))"
    then have "b (k + i) = b (k + j)" by simp
    with assms have "k + i = k + j" by (rule injD)
    then show "i = j" by simp
  qed
  ultimately show ?thesis by (simp add: distinct_map)
qed

lemma inj_unary: "inj unary"
proof (rule injI)
  fix n m assume "unary n = unary m"
  then have "length (unary n) = length (unary m)" by simp
  then show "n = m" by (simp add: unary_def)
qed

lemma sent_embeddings_run:
  assumes "size_of e \<noteq> 0"
    and "prepare_data b (id_field_of a) e data = Inr (d, added)"
    and "respond env [] (emb_ctor rn a) = None"
  shows "sent_embeddings (trace (snd (map_embeddings env b rn e data a init))) = [d]"
proof (cases "respond env [emb_ctor rn a] (Add_embeddings e d)")
  case None
  from map_embeddings_run(1)[OF assms None] show ?thesis
    by (auto simp: Let_def emb_ctor_def split: option.splits)
next
  case (Some ex)
  show ?thesis
  proof (cases "total_datums env = 0")
    case True
    from map_embeddings_run(2)[OF assms Some True] show ?thesis by (simp add: emb_ctor_def)
  next
    case False
    from map_embeddings_run(3)[OF assms Some False] show ?thesis by (simp add: emb_ctor_def)
  qed
qed

lemmas embeddings_run_defs = prepare_data_def assign_ids_def size_of_def
  embeddings_dataset_kwargs_def embeddings_index_kwargs_def opt_str_def

lemma example_embeddings_trace:
  "trace (snd (map_embeddings ok_remote unary ''rnd'' [[1, 2], [3, 4]] (Some example_data)
                 example_embeddings_options init)) =
     [AtlasDataset
        [(''identifier'', AStr ''rnd''), (''description'', AStr ''A description for your map.''),
         (''unique_id_field'', AStr ''id_''), (''modality'', AStr ''embedding''),
         (''is_public'', ABool True), (''reset_project_if_exists'', ABool False),
         (''add_datums_if_exists'', ABool False)],
      Add_embeddings [[1, 2], [3, 4]]
        [[(''text'', Str ''a''), (''id_'', Str [])], [(''text'', Str ''b''), (''id_'', Str ''A'')]],
      Create_index
        [(''name'', AStr ''rnd''), (''colorable_fields'', AStrs []),
         (''build_topic_model'', ABool True), (''projection_n_neighbors'', AInt 15),
         (''projection_epochs'', AInt 50), (''projection_spread'', AFloat 1),
         (''topic_label_field'', ANone)],
      Latest_project_state]"
  by (simp add: example_defs run_defs embeddings_run_defs upt_rec[of 0] upt_rec[of 1])

text \<open>Claim C2. When the identifier field is the default one and the first record does not
  have it, the record at position \<open>i\<close> is uploaded with the identifier \<open>b64int i\<close>, for
  every position of the input, on both paths: in the batches of \<^verbatim>\<open>map_text\<close>, whose
  counter runs on across batches, and in the metadata \<^verbatim>\<open>map_embeddings\<close> passes on. The
  identifiers are pairwise different when the encoder \<open>b64int\<close> is injective.\<close>

theorem identifiers_assigned:
  "(id_field_of a = ATLAS_DEFAULT_ID_FIELD \<and> \<not> has_key x ATLAS_DEFAULT_ID_FIELD \<and>
    respond env [] (text_ctor random_name a) = None \<and>
    validate_map_data_inputs env (colorable_fields a) (id_field_of a) x = None \<and>
    add_errors env (trace (snd (map_text env b64int random_name (iter (x # xs)) a init))) = []
    \<longrightarrow>
      concat (sent (trace (snd (map_text env b64int random_name (iter (x # xs)) a init)))) =
        map (\<lambda>i. set_item ((x # xs) ! i) ATLAS_DEFAULT_ID_FIELD (Str (b64int i)))
          [0..<length (x # xs)] \<and>
      (inj b64int \<longrightarrow>
         distinct (map (\<lambda>d. map_of d ATLAS_DEFAULT_ID_FIELD)
           (concat (sent (trace (snd (map_text env b64int random_name (iter (x # xs)) a init))))))))
   \<and>
   (id_field_of a' = ATLAS_DEFAULT_ID_FIELD \<and> \<not> has_key x ATLAS_DEFAULT_ID_FIELD \<and>
    size_of embeddings \<noteq> 0 \<and> respond env [] (emb_ctor random_name a') = None
    \<longrightarrow>
      sent_embeddings
        (trace (snd (map_embeddings env b64int random_name embeddings (Some (x # xs)) a' init))) =
        [map (\<lambda>i. set_item ((x # xs) ! i) ATLAS_DEFAULT_ID_FIELD (Str (b64int i)))
           [0..<length (x # xs)]] \<and>
      (inj b64int \<longrightarrow>
         distinct (map (\<lambda>d. map_of d ATLAS_DEFAULT_ID_FIELD)
           (concat (sent_embeddings
              (trace (snd (map_embeddings env b64int random_name embeddings (Some (x # xs)) a'
                            init))))))))"
proof (intro conjI impI; (elim conjE)?)
  assume h: "id_field_of a = ATLAS_DEFAULT_ID_FIELD" "\<not> has_key x ATLAS_DEFAULT_ID_FIELD"
    "respond env [] (text_ctor random_name a) = None"
    "validate_map_data_inputs env (colorable_fields a) (id_field_of a) x = None"
    "add_errors env (trace (snd (map_text env b64int random_name (iter (x # xs)) a init))) = []"
  have f: "text_add_id a x" using h(1,2) by (simp add: text_add_id_def)
  have c: "concat (sent (trace (snd (map_text env b64int random_name (iter (x # xs)) a init)))) =
             with_ids b64int True ATLAS_DEFAULT_ID_FIELD 0 (x # xs)"
    using sent_all_records[OF h(3,4,5)] f h(1) by simp
  show "concat (sent (trace (snd (map_text env b64int random_name (iter (x # xs)) a init)))) =
        map (\<lambda>i. set_item ((x # xs) ! i) ATLAS_DEFAULT_ID_FIELD (Str (b64int i)))
          [0..<length (x # xs)]"
    unfolding c by (rule with_ids_True)
  show "distinct (map (\<lambda>d. map_of d ATLAS_DEFAULT_ID_FIELD)
           (concat (sent (trace (snd (map_text env b64int random_name (iter (x # xs)) a init))))))"
    if "inj b64int"
    unfolding c using that by (rule distinct_with_ids)
next
  assume h: "id_field_of a' = ATLAS_DEFAULT_ID_FIELD" "\<not> has_key x ATLAS_DEFAULT_ID_FIELD"
    "size_of embeddings \<noteq> 0" "respond env [] (emb_ctor random_name a') = None"
  have p: "prepare_data b64int (id_field_of a') embeddings (Some (x # xs)) =
             Inr (with_ids b64int True ATLAS_DEFAULT_ID_FIELD 0 (x # xs), True)"
    using prepare_data_assigns[OF h(1,2)] h(1) by simp
  have c: "sent_embeddings
             (trace (snd (map_embeddings env b64int random_name embeddings (Some (x # xs)) a' init))) =
           [with_ids b64int True ATLAS_DEFAULT_ID_FIELD 0 (x # xs)]"
    by (rule sent_embeddings_run[OF h(3) p h(4)])
  show "sent_embeddings
        (trace (snd (map_embeddings env b64int random_name embeddings (Some (x # xs)) a' init))) =
        [map (\<lambda>i. set_item ((x # xs) ! i) ATLAS_DEFAULT_ID_FIELD (Str (b64int i)))
           [0..<length (x # xs)]]"
    unfolding c by (simp only: with_ids_True)
  show "distinct (map (\<lambda>d. map_of d ATLAS_DEFAULT_ID_FIELD)
           (concat (sent_embeddings
              (trace (snd (map_embeddings env b64int random_name embeddings (Some (x # xs)) a'
                            init))))))"
    if "inj b64int"
    unfolding c using distinct_with_ids[OF that, of ATLAS_DEFAULT_ID_FIELD 0 "x # xs"] by simp
qed

text \<open>The theorem at the example input, on both paths.\<close>

theorem identifiers_assigned_witness:
  "concat (sent (trace (snd (map_text ok_remote unary ''rnd'' (iter example_data)
                               example_text_options init)))) =
     [[(''text'', Str ''a''), (''id_'', Str (unary 0))], [(''text'', Str ''b''), (''id_'', Str (unary 1))]]
   \<and> sent_embeddings (trace (snd (map_embeddings ok_remote unary ''rnd'' [[1, 2], [3, 4]]
                                    (Some example_data) example_embeddings_options init))) =
     [[[(''text'', Str ''a''), (''id_'', Str (unary 0))], [(''text'', Str ''b''), (''id_'', Str (unary 1))]]]
   \<and> distinct [Some (Str (unary 0)), Some (Str (unary 1))]"
proof -
  let ?x = "[(''text'', Str ''a'')]"
  let ?xs = "[[(''text'', Str ''b'')]]"
  have h1: "id_field_of example_text_options = ATLAS_DEFAULT_ID_FIELD"
    and h1': "id_field_of example_embeddings_options = ATLAS_DEFAULT_ID_FIELD"
    by (simp_all add: id_field_of_def example_defs)
  have h2: "\<not> has_key ?x ATLAS_DEFAULT_ID_FIELD"
    by (simp add: has_key_def ATLAS_DEFAULT_ID_FIELD_def)
  have h3: "respond ok_remote [] (text_ctor ''rnd'' example_text_options) = None"
    and h3': "respond ok_remote [] (emb_ctor ''rnd'' example_embeddings_options) = None"
    by (simp_all add: ok_remote_def)
  have h4: "validate_map_data_inputs ok_remote (colorable_fields example_text_options)
              (id_field_of example_text_options) ?x = None"
    by (simp add: ok_remote_def)
  have h5: "add_errors ok_remote
              (trace (snd (map_text ok_remote unary ''rnd'' (iter (?x # ?xs)) example_text_options init))) = []"
    by (simp add: add_errors_def)
  have h6: "size_of [[1, 2], [3, 4::real]] \<noteq> 0" by (simp add: size_of_def)
  show ?thesis
    using identifiers_assigned[of example_text_options ?x ok_remote "''rnd''" unary ?xs
        example_embeddings_options "[[1, 2], [3, 4]]"]
      h1 h1' h2 h3 h3' h4 h5 h6 inj_unary
    by (simp add: example_data_def set_item_def ATLAS_DEFAULT_ID_FIELD_def unary_def
        upt_rec[of 0] upt_rec[of 1])
qed

lemma index_calls_append [simp]: "index_calls (xs @ ys) = index_calls xs @ index_calls ys"
  by (simp add: index_calls_def)

lemma index_calls_Add_text [simp]: "index_calls (map Add_text bs) = []"
  by (simp add: index_calls_def)

lemma delete_errors_none: "Delete \<notin> set tr \<Longrightarrow> delete_errors env tr = []"
  using raised_calls[of env "[]" tr] by (auto simp: delete_errors_def filter_empty_conv)

lemma delete_errors_snoc:
  "Delete \<notin> set tr \<Longrightarrow>
   delete_errors env (tr @ [Delete]) = (case respond env tr Delete of None \<Rightarrow> [] | Some e \<Rightarrow> [e])"
  using delete_errors_none[of tr env]
  by (simp add: delete_errors_def raised_snoc split: option.splits)

lemma Delete_notin_adds [simp]: "Delete \<notin> set (map Add_text bs)"
  by auto

text \<open>The shape of a run of \<^verbatim>\<open>map_text\<close> whose try block raises.\<close>

lemma map_text_failure:
  assumes c: "respond env [] (text_ctor rn a) = None"
    and v: "validate_map_data_inputs env (colorable_fields a) (id_field_of a) x = None"
    and f: "fst (text_upload env b (text_add_id a x) (id_field_of a) x it (text_begin rn a x init)) = Inl e"
  shows "total_datums env = 0 \<Longrightarrow>
           \<exists>bs. trace (snd (map_text env b rn (Yield x it) a init)) =
                  text_ctor rn a # map Add_text bs @ [Delete] \<and>
                fst (map_text env b rn (Yield x it) a init) =
                  Inl (case respond env (text_ctor rn a # map Add_text bs) Delete of
                         None \<Rightarrow> e | Some e' \<Rightarrow> e')"
    and "total_datums env \<noteq> 0 \<Longrightarrow>
           \<exists>bs. trace (snd (map_text env b rn (Yield x it) a init)) = text_ctor rn a # map Add_text bs \<and>
                fst (map_text env b rn (Yield x it) a init) = Inl e"
proof -
  let ?st = "text_begin rn a x init"
  let ?T = "text_upload env b (text_add_id a x) (id_field_of a) x it ?st"
  obtain r st5 where T: "?T = (r, st5)" by (cases ?T)
  with f have r: "r = Inl e" by simp
  have c': "respond env (trace init) (text_ctor rn a) = None" using c by simp
  note fin = map_text_finish[OF c' v T]
  from text_upload_trace[of env b "text_add_id a x" "id_field_of a" x it ?st] T
  obtain bs where bs: "trace st5 = text_ctor rn a # map Add_text bs" by auto
  show "total_datums env = 0 \<Longrightarrow>
           \<exists>bs. trace (snd (map_text env b rn (Yield x it) a init)) =
                  text_ctor rn a # map Add_text bs @ [Delete] \<and>
                fst (map_text env b rn (Yield x it) a init) =
                  Inl (case respond env (text_ctor rn a # map Add_text bs) Delete of
                         None \<Rightarrow> e | Some e' \<Rightarrow> e')"
    using fin(2)[OF r] bs by auto
  show "total_datums env \<noteq> 0 \<Longrightarrow>
           \<exists>bs. trace (snd (map_text env b rn (Yield x it) a init)) = text_ctor rn a # map Add_text bs \<and>
                fst (map_text env b rn (Yield x it) a init) = Inl e"
    using fin(3)[OF r] bs by auto
qed

text \<open>A run of \<^verbatim>\<open>map_text\<close> in which an \<^verbatim>\<open>add_text\<close> call raised has reached the try block.\<close>

lemma map_text_add_raised:
  assumes "add_errors env (trace (snd (map_text env b rn data a init))) = [e]"
  obtains x it where "data = Yield x it" "respond env [] (text_ctor rn a) = None"
    "validate_map_data_inputs env (colorable_fields a) (id_field_of a) x = None"
    "fst (text_upload env b (text_add_id a x) (id_field_of a) x it (text_begin rn a x init)) = Inl e"
proof (cases data)
  case Stop
  then show ?thesis using assms by (simp add: map_text_Stop add_errors_def)
next
  case (Raise e')
  then show ?thesis using assms by (simp add: map_text_Raise add_errors_def)
next
  case (Yield x it)
  show ?thesis
  proof (cases "respond env [] (text_ctor rn a)")
    case (Some e')
    then show ?thesis using assms Yield map_text_ctor_fails[of env init rn a e' b x it]
      by (simp add: add_errors_def text_ctor_def)
  next
    case None
    show ?thesis
    proof (cases "validate_map_data_inputs env (colorable_fields a) (id_field_of a) x")
      case (Some e')
      then show ?thesis using assms Yield None map_text_invalid[of env init rn a x e' b it]
        by (simp add: add_errors_def text_ctor_def)
    next
      case vok: None
      from None vok show ?thesis
      proof (cases rule: map_text_upload_cases[of env rn a x b it])
        case ok
        then show ?thesis using assms Yield by simp
      next
        case (iter_raised e')
        then show ?thesis using assms Yield by simp
      next
        case (add_raised e')
        then show ?thesis using assms Yield that[OF Yield None vok] by simp
      qed
    qed
  qed
qed

lemma map_embeddings_prepare_fails:
  "size_of e \<noteq> 0 \<Longrightarrow> prepare_data b (id_field_of a) e data = Inl ex \<Longrightarrow>
   map_embeddings env b rn e data a st = (Inl ex, st)"
  by (simp add: map_embeddings_def)

lemma map_embeddings_ctor_fails:
  "size_of e \<noteq> 0 \<Longrightarrow> prepare_data b (id_field_of a) e data = Inr (d, added) \<Longrightarrow>
   respond env (trace st) (emb_ctor rn a) = Some ex \<Longrightarrow>
   fst (map_embeddings env b rn e data a st) = Inl ex \<and>
   trace (snd (map_embeddings env b rn e data a st)) = trace st @ [emb_ctor rn a]"
  by (simp add: map_embeddings_def emb_ctor_def invoke_def logger_def)

text \<open>A run of \<^verbatim>\<open>map_embeddings\<close> in which \<^verbatim>\<open>add_embeddings\<close> raised.\<close>

lemma map_embeddings_add_raised:
  assumes "add_errors env (trace (snd (map_embeddings env b rn e data a init))) = [ex]"
  obtains d added where "size_of e \<noteq> 0" "prepare_data b (id_field_of a) e data = Inr (d, added)"
    "respond env [] (emb_ctor rn a) = None"
    "respond env [emb_ctor rn a] (Add_embeddings e d) = Some ex"
proof (cases "size_of e = 0")
  case True
  then show ?thesis using assms by (simp add: map_embeddings_empty add_errors_def)
next
  case nz: False
  show ?thesis
  proof (cases "prepare_data b (id_field_of a) e data")
    case (Inl ex')
    then show ?thesis using assms nz by (simp add: map_embeddings_prepare_fails add_errors_def)
  next
    case (Inr p)
    obtain d added where p: "prepare_data b (id_field_of a) e data = Inr (d, added)"
      using Inr by (cases p) simp
    show ?thesis
    proof (cases "respond env [] (emb_ctor rn a)")
      case (Some ex')
      then show ?thesis using assms map_embeddings_ctor_fails[OF nz p, of env init rn ex']
        by (simp add: add_errors_def emb_ctor_def)
    next
      case None
      show ?thesis
      proof (cases "respond env [emb_ctor rn a] (Add_embeddings e d)")
        case ok: None
        from map_embeddings_run(1)[OF nz p None ok] show ?thesis using assms None ok
          by (auto simp: Let_def add_errors_def emb_ctor_def split: option.splits if_splits)
      next
        case (Some ex')
        have "add_errors env (trace (snd (map_embeddings env b rn e data a init))) = [ex']"
        proof (cases "total_datums env = 0")
          case True
          from map_embeddings_run(2)[OF nz p None Some True] show ?thesis using None Some
            by (auto simp: add_errors_def emb_ctor_def split: option.splits)
        next
          case False
          from map_embeddings_run(3)[OF nz p None Some False] show ?thesis using None Some
            by (auto simp: add_errors_def emb_ctor_def split: option.splits)
        qed
        then show ?thesis using assms that[OF nz p None] Some by simp
      qed
    qed
  qed
qed

text \<open>Claim C1, as the code has it. When an add call raises \<open>e\<close>, on either path, the
  dataset's \<^verbatim>\<open>delete\<close> is called exactly once if \<^verbatim>\<open>total_datums\<close> was 0 and never
  otherwise, and the caller gets \<open>e\<close>, unless \<^verbatim>\<open>delete\<close> itself raises: then the caller
  gets the exception of \<^verbatim>\<open>delete\<close>.\<close>

theorem rollback_on_add_failure:
  "(add_errors env (trace (snd (map_text env b64int random_name data a init))) = [e] \<longrightarrow>
      deletes (trace (snd (map_text env b64int random_name data a init))) =
        (if total_datums env = 0 then 1 else 0) \<and>
      fst (map_text env b64int random_name data a init) =
        Inl (case delete_errors env (trace (snd (map_text env b64int random_name data a init))) of
               [] \<Rightarrow> e | e' # es \<Rightarrow> e'))
   \<and>
   (add_errors env (trace (snd (map_embeddings env b64int random_name embeddings data' a' init))) = [e]
    \<longrightarrow>
      deletes (trace (snd (map_embeddings env b64int random_name embeddings data' a' init))) =
        (if total_datums env = 0 then 1 else 0) \<and>
      fst (map_embeddings env b64int random_name embeddings data' a' init) =
        Inl (case delete_errors env
                    (trace (snd (map_embeddings env b64int random_name embeddings data' a' init))) of
               [] \<Rightarrow> e | e' # es \<Rightarrow> e'))"
proof (rule conjI; rule impI)
  let ?M = "map_text env b64int random_name data a init"
  assume "add_errors env (trace (snd ?M)) = [e]"
  then obtain x it where d: "data = Yield x it"
    and c: "respond env [] (text_ctor random_name a) = None"
    and v: "validate_map_data_inputs env (colorable_fields a) (id_field_of a) x = None"
    and f: "fst (text_upload env b64int (text_add_id a x) (id_field_of a) x it
                   (text_begin random_name a x init)) = Inl e"
    by (rule map_text_add_raised)
  note fail = map_text_failure[OF c v f]
  show "deletes (trace (snd ?M)) = (if total_datums env = 0 then 1 else 0) \<and>
        fst ?M = Inl (case delete_errors env (trace (snd ?M)) of [] \<Rightarrow> e | e' # es \<Rightarrow> e')"
  proof (cases "total_datums env = 0")
    case True
    from fail(1)[OF True] obtain bs where
      t: "trace (snd ?M) = (text_ctor random_name a # map Add_text bs) @ [Delete]"
      and r: "fst ?M = Inl (case respond env (text_ctor random_name a # map Add_text bs) Delete of
                              None \<Rightarrow> e | Some e' \<Rightarrow> e')"
      unfolding d by auto
    have n: "Delete \<notin> set (text_ctor random_name a # map Add_text bs)"
      by (auto simp: text_ctor_def)
    have "deletes (trace (snd ?M)) = 1"
      unfolding t by (simp add: deletes_def text_ctor_def)
    moreover have "fst ?M = Inl (case delete_errors env (trace (snd ?M)) of [] \<Rightarrow> e | e' # es \<Rightarrow> e')"
      unfolding r t delete_errors_snoc[OF n] by (simp split: option.splits)
    ultimately show ?thesis using True by simp
  next
    case False
    from fail(2)[OF False] obtain bs where
      t: "trace (snd ?M) = text_ctor random_name a # map Add_text bs"
      and r: "fst ?M = Inl e"
      unfolding d by auto
    have n: "Delete \<notin> set (text_ctor random_name a # map Add_text bs)"
      by (auto simp: text_ctor_def)
    have "deletes (trace (snd ?M)) = 0"
      unfolding t by (simp add: deletes_def text_ctor_def)
    then show ?thesis using False r t delete_errors_none[OF n, of env] by simp
  qed
next
  let ?M = "map_embeddings env b64int random_name embeddings data' a' init"
  assume "add_errors env (trace (snd ?M)) = [e]"
  then obtain d added where nz: "size_of embeddings \<noteq> 0"
    and p: "prepare_data b64int (id_field_of a') embeddings data' = Inr (d, added)"
    and c: "respond env [] (emb_ctor random_name a') = None"
    and f: "respond env [emb_ctor random_name a'] (Add_embeddings embeddings d) = Some e"
    by (rule map_embeddings_add_raised)
  have n: "Delete \<notin> set [emb_ctor random_name a', Add_embeddings embeddings d]"
    by (simp add: emb_ctor_def)
  show "deletes (trace (snd ?M)) = (if total_datums env = 0 then 1 else 0) \<and>
        fst ?M = Inl (case delete_errors env (trace (snd ?M)) of [] \<Rightarrow> e | e' # es \<Rightarrow> e')"
  proof (cases "total_datums env = 0")
    case True
    from map_embeddings_run(2)[OF nz p c f True]
    have t: "trace (snd ?M) = [emb_ctor random_name a', Add_embeddings embeddings d] @ [Delete]"
      and r: "fst ?M = Inl (case respond env [emb_ctor random_name a', Add_embeddings embeddings d]
                                   Delete of None \<Rightarrow> e | Some e' \<Rightarrow> e')"
      by simp_all
    have "deletes (trace (snd ?M)) = 1"
      unfolding t by (simp add: deletes_def emb_ctor_def)
    moreover have "fst ?M = Inl (case delete_errors env (trace (snd ?M)) of [] \<Rightarrow> e | e' # es \<Rightarrow> e')"
      unfolding r t delete_errors_snoc[OF n] by (simp split: option.splits)
    ultimately show ?thesis using True by simp
  next
    case False
    from map_embeddings_run(3)[OF nz p c f False]
    have t: "trace (snd ?M) = [emb_ctor random_name a', Add_embeddings embeddings d]"
      and r: "fst ?M = Inl e"
      by simp_all
    have "deletes (trace (snd ?M)) = 0"
      unfolding t by (simp add: deletes_def emb_ctor_def)
    then show ?thesis using False r t delete_errors_none[OF n, of env] by simp
  qed
qed

lemma add_fails_remote_simps [simp]:
  "respond add_fails_remote tr c = (if is_add c then Some (RemoteError ''add'') else None)"
  "total_datums add_fails_remote = 0"
  "validate_map_data_inputs add_fails_remote cf idf d = None"
  by (simp_all add: add_fails_remote_def)

lemma delete_fails_remote_simps [simp]:
  "respond delete_fails_remote tr c =
     (if is_add c then Some (RemoteError ''add'')
      else if c = Delete then Some (RemoteError ''delete'') else None)"
  "total_datums delete_fails_remote = 0"
  "validate_map_data_inputs delete_fails_remote cf idf d = None"
  by (simp_all add: delete_fails_remote_def)

lemma example_text_add_fails:
  "map_text add_fails_remote unary ''rnd'' (iter example_data) example_text_options init =
     (Inl (RemoteError ''add''),
      \<lparr>trace =
         [AtlasDataset
            [(''name'', AStr ''rnd''), (''description'', AStr ''A description for your map.''),
             (''unique_id_field'', AStr ''id_''), (''modality'', AStr ''text''),
             (''is_public'', ABool True), (''reset_project_if_exists'', ABool False),
             (''add_datums_if_exists'', ABool False)],
          Add_text [[(''text'', Str ''a''), (''id_'', Str [])], [(''text'', Str ''b''), (''id_'', Str ''A'')]],
          Delete],
       log =
         [(WARNING, ''An ID field was not specified in your data so one was generated for you in insertion order.''),
          (INFO, ''Uploading text to Atlas.''),
          (INFO, ''rnd: Deleting dataset due to failure in initial upload.'')]\<rparr>)"
  by (simp add: example_defs run_defs)

lemma example_text_delete_fails:
  "map_text delete_fails_remote unary ''rnd'' (iter example_data) example_text_options init =
     (Inl (RemoteError ''delete''),
      \<lparr>trace =
         [AtlasDataset
            [(''name'', AStr ''rnd''), (''description'', AStr ''A description for your map.''),
             (''unique_id_field'', AStr ''id_''), (''modality'', AStr ''text''),
             (''is_public'', ABool True), (''reset_project_if_exists'', ABool False),
             (''add_datums_if_exists'', ABool False)],
          Add_text [[(''text'', Str ''a''), (''id_'', Str [])], [(''text'', Str ''b''), (''id_'', Str ''A'')]],
          Delete],
       log =
         [(WARNING, ''An ID field was not specified in your data so one was generated for you in insertion order.''),
          (INFO, ''Uploading text to Atlas.''),
          (INFO, ''rnd: Deleting dataset due to failure in initial upload.'')]\<rparr>)"
  by (simp add: example_defs run_defs)

lemma example_embeddings_add_fails:
  "map_embeddings add_fails_remote unary ''rnd'' [[1, 2], [3, 4]] (Some example_data)
     example_embeddings_options init =
     (Inl (RemoteError ''add''),
      \<lparr>trace =
         [AtlasDataset
            [(''identifier'', AStr ''rnd''), (''description'', AStr ''A description for your map.''),
             (''unique_id_field'', AStr ''id_''), (''modality'', AStr ''embedding''),
             (''is_public'', ABool True), (''reset_project_if_exists'', ABool False),
             (''add_datums_if_exists'', ABool False)],
          Add_embeddings [[1, 2], [3, 4]]
            [[(''text'', Str ''a''), (''id_'', Str [])], [(''text'', Str ''b''), (''id_'', Str ''A'')]],
          Delete],
       log =
         [(WARNING, ''An ID field was not specified in your data so one was generated for you in insertion order.''),
          (INFO, ''Uploading embeddings to Atlas.''),
          (INFO, ''rnd: Deleting dataset due to failure in initial upload.'')]\<rparr>)"
  by (simp add: example_defs run_defs embeddings_run_defs upt_rec[of 0] upt_rec[of 1])

text \<open>The theorem on a remote side whose add calls raise and whose delete returns.\<close>

theorem rollback_on_add_failure_witness:
  "add_errors add_fails_remote
     (trace (snd (map_text add_fails_remote unary ''rnd'' (iter example_data)
                    example_text_options init))) = [RemoteError ''add'']
   \<and> deletes (trace (snd (map_text add_fails_remote unary ''rnd'' (iter example_data)
                             example_text_options init))) = 1
   \<and> fst (map_text add_fails_remote unary ''rnd'' (iter example_data) example_text_options init) =
       Inl (RemoteError ''add'')
   \<and> add_errors add_fails_remote
       (trace (snd (map_embeddings add_fails_remote unary ''rnd'' [[1, 2], [3, 4]]
                      (Some example_data) example_embeddings_options init))) = [RemoteError ''add'']
   \<and> deletes (trace (snd (map_embeddings add_fails_remote unary ''rnd'' [[1, 2], [3, 4]]
                             (Some example_data) example_embeddings_options init))) = 1
   \<and> fst (map_embeddings add_fails_remote unary ''rnd'' [[1, 2], [3, 4]] (Some example_data)
            example_embeddings_options init) = Inl (RemoteError ''add'')"
proof -
  have h1: "add_errors add_fails_remote
     (trace (snd (map_text add_fails_remote unary ''rnd'' (iter example_data)
                    example_text_options init))) = [RemoteError ''add'']"
    by (simp add: example_text_add_fails add_errors_def)
  have h2: "add_errors add_fails_remote
       (trace (snd (map_embeddings add_fails_remote unary ''rnd'' [[1, 2], [3, 4]]
                      (Some example_data) example_embeddings_options init))) = [RemoteError ''add'']"
    by (simp add: example_embeddings_add_fails add_errors_def)
  have t: "total_datums add_fails_remote = 0" by simp
  show ?thesis
    using rollback_on_add_failure[of add_fails_remote unary "''rnd''" "iter example_data"
        example_text_options "RemoteError ''add''" "[[1, 2], [3, 4]]" "Some example_data"
        example_embeddings_options] h1 h2 t
    by (simp add: example_text_add_fails example_embeddings_add_fails delete_errors_def)
qed

text \<open>Claim C1 as it is stated fails: on a new dataset whose \<^verbatim>\<open>add_text\<close> raises and whose
  \<^verbatim>\<open>delete\<close> raises too, the caller does not get the error of \<^verbatim>\<open>add_text\<close>.\<close>

theorem original_error_lost_counterexample:
  "add_errors delete_fails_remote
     (trace (snd (map_text delete_fails_remote unary ''rnd'' (iter example_data)
                    example_text_options init))) = [RemoteError ''add'']
   \<and> total_datums delete_fails_remote = 0
   \<and> fst (map_text delete_fails_remote unary ''rnd'' (iter example_data) example_text_options init) =
       Inl (RemoteError ''delete'')
   \<and> fst (map_text delete_fails_remote unary ''rnd'' (iter example_data) example_text_options init) \<noteq>
       Inl (RemoteError ''add'')"
  by (simp add: example_text_delete_fails add_errors_def)

text \<open>Claim C10. The handler is entered for every exception of the try block, whatever its
  class: one raised by an add call, or one that comes out of the caller's iterator while
  \<^verbatim>\<open>map_text\<close> reads it (a \<^verbatim>\<open>KeyboardInterrupt\<close>, say). For a dataset that was new,
  \<^verbatim>\<open>delete\<close> is then the last call made, it is made once, and the caller gets the exception
  again, unless \<^verbatim>\<open>delete\<close> itself raises: its exception then takes the place of the first.\<close>

theorem rollback_catches_every_exception:
  "(respond env [] (text_ctor random_name a) = None \<and>
    validate_map_data_inputs env (colorable_fields a) (id_field_of a) x = None \<and>
    total_datums env = 0 \<and>
    (add_errors env (trace (snd (map_text env b64int random_name (Yield x it) a init))) = [e] \<or>
     add_errors env (trace (snd (map_text env b64int random_name (Yield x it) a init))) = [] \<and>
     ending it = Some e)
    \<longrightarrow>
      deletes (trace (snd (map_text env b64int random_name (Yield x it) a init))) = 1 \<and>
      last (trace (snd (map_text env b64int random_name (Yield x it) a init))) = Delete \<and>
      fst (map_text env b64int random_name (Yield x it) a init) =
        Inl (case respond env
                    (butlast (trace (snd (map_text env b64int random_name (Yield x it) a init))))
                    Delete of
               None \<Rightarrow> e | Some e' \<Rightarrow> e'))
   \<and>
   (size_of embeddings \<noteq> 0 \<and>
    prepare_data b64int (id_field_of a') embeddings data' = Inr (d, added) \<and>
    respond env [] (emb_ctor random_name a') = None \<and>
    total_datums env = 0 \<and>
    respond env [emb_ctor random_name a'] (Add_embeddings embeddings d) = Some e
    \<longrightarrow>
      trace (snd (map_embeddings env b64int random_name embeddings data' a' init)) =
        [emb_ctor random_name a', Add_embeddings embeddings d, Delete] \<and>
      fst (map_embeddings env b64int random_name embeddings data' a' init) =
        Inl (case respond env [emb_ctor random_name a', Add_embeddings embeddings d] Delete of
               None \<Rightarrow> e | Some e' \<Rightarrow> e'))"
proof (rule conjI; rule impI; elim conjE)
  let ?M = "map_text env b64int random_name (Yield x it) a init"
  let ?T = "text_upload env b64int (text_add_id a x) (id_field_of a) x it
              (text_begin random_name a x init)"
  assume c: "respond env [] (text_ctor random_name a) = None"
    and v: "validate_map_data_inputs env (colorable_fields a) (id_field_of a) x = None"
    and fresh: "total_datums env = 0"
    and r: "add_errors env (trace (snd ?M)) = [e] \<or>
            add_errors env (trace (snd ?M)) = [] \<and> ending it = Some e"
  from c v have f: "fst ?T = Inl e"
  proof (cases rule: map_text_upload_cases[of env random_name a x b64int it])
    case ok
    then show ?thesis using r by simp
  next
    case (iter_raised e')
    then show ?thesis using r by simp
  next
    case (add_raised e')
    then show ?thesis using r by simp
  qed
  from map_text_failure(1)[OF c v f fresh] obtain bs where
    t: "trace (snd ?M) = (text_ctor random_name a # map Add_text bs) @ [Delete]"
    and res: "fst ?M = Inl (case respond env (text_ctor random_name a # map Add_text bs) Delete of
                              None \<Rightarrow> e | Some e' \<Rightarrow> e')"
    by auto
  have "deletes (trace (snd ?M)) = 1"
    unfolding t by (simp add: deletes_def text_ctor_def)
  moreover have "last (trace (snd ?M)) = Delete"
    unfolding t by simp
  moreover have "butlast (trace (snd ?M)) = text_ctor random_name a # map Add_text bs"
    unfolding t by (simp only: butlast_snoc)
  ultimately show "deletes (trace (snd ?M)) = 1 \<and> last (trace (snd ?M)) = Delete \<and>
      fst ?M = Inl (case respond env (butlast (trace (snd ?M))) Delete of
                      None \<Rightarrow> e | Some e' \<Rightarrow> e')"
    using res by simp
next
  assume h: "size_of embeddings \<noteq> 0"
    "prepare_data b64int (id_field_of a') embeddings data' = Inr (d, added)"
    "respond env [] (emb_ctor random_name a') = None"
    "total_datums env = 0"
    "respond env [emb_ctor random_name a'] (Add_embeddings embeddings d) = Some e"
  show "trace (snd (map_embeddings env b64int random_name embeddings data' a' init)) =
        [emb_ctor random_name a', Add_embeddings embeddings d, Delete] \<and>
      fst (map_embeddings env b64int random_name embeddings data' a' init) =
        Inl (case respond env [emb_ctor random_name a', Add_embeddings embeddings d] Delete of
               None \<Rightarrow> e | Some e' \<Rightarrow> e')"
    by (rule map_embeddings_run(2)[OF h(1,2,3,5,4)])
qed

lemma example_interrupted:
  "map_text ok_remote unary ''rnd'' (Yield [(''text'', Str ''a'')] (Raise KeyboardInterrupt))
     example_text_options init =
     (Inl KeyboardInterrupt,
      \<lparr>trace =
         [AtlasDataset
            [(''name'', AStr ''rnd''), (''description'', AStr ''A description for your map.''),
             (''unique_id_field'', AStr ''id_''), (''modality'', AStr ''text''),
             (''is_public'', ABool True), (''reset_project_if_exists'', ABool False),
             (''add_datums_if_exists'', ABool False)],
          Delete],
       log =
         [(WARNING, ''An ID field was not specified in your data so one was generated for you in insertion order.''),
          (INFO, ''Uploading text to Atlas.''),
          (INFO, ''rnd: Deleting dataset due to failure in initial upload.'')]\<rparr>)"
  by (simp add: example_defs run_defs)

lemma example_embeddings_delete_fails:
  "fst (map_embeddings delete_fails_remote unary ''rnd'' [[1, 2], [3, 4]] (Some example_data)
          example_embeddings_options init) = Inl (RemoteError ''delete'')"
  by (simp add: example_defs run_defs embeddings_run_defs upt_rec[of 0] upt_rec[of 1])

text \<open>The theorem for a \<^verbatim>\<open>KeyboardInterrupt\<close> that reaches \<^verbatim>\<open>map_text\<close> through the iterator,
  and for a \<^verbatim>\<open>map_embeddings\<close> whose \<^verbatim>\<open>delete\<close> raises.\<close>

theorem rollback_catches_every_exception_witness:
  "ending (Raise KeyboardInterrupt :: datum iterator) = Some KeyboardInterrupt
   \<and> total_datums ok_remote = 0
   \<and> deletes (trace (snd (map_text ok_remote unary ''rnd''
                             (Yield [(''text'', Str ''a'')] (Raise KeyboardInterrupt))
                             example_text_options init))) = 1
   \<and> fst (map_text ok_remote unary ''rnd'' (Yield [(''text'', Str ''a'')] (Raise KeyboardInterrupt))
            example_text_options init) = Inl KeyboardInterrupt
   \<and> respond delete_fails_remote [emb_ctor ''rnd'' example_embeddings_options]
        (Add_embeddings [[1, 2], [3, 4]] (with_ids unary True ''id_'' 0 example_data)) =
       Some (RemoteError ''add'')
   \<and> fst (map_embeddings delete_fails_remote unary ''rnd'' [[1, 2], [3, 4]] (Some example_data)
            example_embeddings_options init) = Inl (RemoteError ''delete'')"
proof -
  let ?x = "[(''text'', Str ''a'')]"
  have h1: "respond ok_remote [] (text_ctor ''rnd'' example_text_options) = None"
    and h2: "validate_map_data_inputs ok_remote (colorable_fields example_text_options)
               (id_field_of example_text_options) ?x = None"
    and h3: "total_datums ok_remote = 0"
    by (simp_all add: ok_remote_def)
  have h4: "add_errors ok_remote
              (trace (snd (map_text ok_remote unary ''rnd'' (Yield ?x (Raise KeyboardInterrupt))
                             example_text_options init))) = []"
    by (simp add: add_errors_def)
  have h5: "ending (Raise KeyboardInterrupt :: datum iterator) = Some KeyboardInterrupt" by simp
  have g1: "size_of [[1, 2], [3, 4::real]] \<noteq> 0" by (simp add: size_of_def)
  have g2: "prepare_data unary (id_field_of example_embeddings_options) [[1, 2], [3, 4]]
              (Some example_data) = Inr (with_ids unary True ''id_'' 0 example_data, True)"
    using prepare_data_assigns[of "''id_''" "[(''text'', Str ''a'')]" unary "[[1, 2], [3, 4]]"
        "[[(''text'', Str ''b'')]]"]
    by (simp add: id_field_of_def example_defs ATLAS_DEFAULT_ID_FIELD_def has_key_def)
  have g3: "respond delete_fails_remote [] (emb_ctor ''rnd'' example_embeddings_options) = None"
    by (simp add: emb_ctor_def)
  have g4: "total_datums delete_fails_remote = 0" by simp
  have g5: "respond delete_fails_remote [emb_ctor ''rnd'' example_embeddings_options]
              (Add_embeddings [[1, 2], [3, 4]] (with_ids unary True ''id_'' 0 example_data)) =
            Some (RemoteError ''add'')"
    by simp
  show ?thesis
    using rollback_catches_every_exception[where env = ok_remote and random_name = "''rnd''"
        and a = example_text_options and x = ?x and ?b64int = unary
        and it = "Raise KeyboardInterrupt" and e = KeyboardInterrupt]
      rollback_catches_every_exception[where env = delete_fails_remote and random_name = "''rnd''"
        and ?b64int = unary and e = "RemoteError ''add''" and embeddings = "[[1, 2], [3, 4]]"
        and a' = example_embeddings_options and data' = "Some example_data"
        and d = "with_ids unary True ''id_'' 0 example_data" and added = True]
      h1 h2 h3 h4 h5 g1 g2 g3 g4 g5
    by (simp add: example_interrupted)
qed

lemma index_calls_index_call [simp]: "index_calls [index_call n kw] = [index_call n kw]"
  by (simp add: index_calls_def index_call_def)

text \<open>Claim C5, as the code has it. When every batch has been uploaded, the calls that follow
  are one index call, \<^verbatim>\<open>create_index\<close> with the caller's arguments for a dataset that was
  empty and \<^verbatim>\<open>rebuild_maps\<close> for one that was not, and then, if that call returns, a second
  call: \<^verbatim>\<open>_latest_project_state\<close>, the refresh of the dataset object that both functions
  return. No other \<^verbatim>\<open>create_index\<close> or \<^verbatim>\<open>rebuild_maps\<close> is in the run.\<close>

theorem index_call_after_upload:
  "(respond env [] (text_ctor random_name a) = None \<and>
    validate_map_data_inputs env (colorable_fields a) (id_field_of a) x = None \<and>
    add_errors env (trace (snd (map_text env b64int random_name (iter (x # xs)) a init))) = []
    \<longrightarrow>
      index_calls (trace (snd (map_text env b64int random_name (iter (x # xs)) a init))) =
        [index_call (total_datums env) (text_index_kwargs (name_of random_name a) a)] \<and>
      (\<exists>bs. trace (snd (map_text env b64int random_name (iter (x # xs)) a init)) =
         (text_ctor random_name a # map Add_text bs) @
         index_call (total_datums env) (text_index_kwargs (name_of random_name a) a) #
         (case respond env (text_ctor random_name a # map Add_text bs)
                 (index_call (total_datums env) (text_index_kwargs (name_of random_name a) a)) of
            None \<Rightarrow> [Latest_project_state] | Some e \<Rightarrow> [])))
   \<and>
   (size_of embeddings \<noteq> 0 \<and>
    prepare_data b64int (id_field_of a') embeddings data' = Inr (d, added) \<and>
    respond env [] (emb_ctor random_name a') = None \<and>
    respond env [emb_ctor random_name a'] (Add_embeddings embeddings d) = None
    \<longrightarrow>
      index_calls (trace (snd (map_embeddings env b64int random_name embeddings data' a' init))) =
        [index_call (total_datums env) (embeddings_index_kwargs (name_of random_name a') a')] \<and>
      trace (snd (map_embeddings env b64int random_name embeddings data' a' init)) =
        [emb_ctor random_name a', Add_embeddings embeddings d,
         index_call (total_datums env) (embeddings_index_kwargs (name_of random_name a') a')] @
        (case respond env [emb_ctor random_name a', Add_embeddings embeddings d]
                (index_call (total_datums env)
                   (embeddings_index_kwargs (name_of random_name a') a')) of
           None \<Rightarrow> [Latest_project_state] | Some e \<Rightarrow> []))
   \<and>
   map (map_of (text_index_kwargs n a))
     [''build_topic_model'', ''projection_n_neighbors'', ''projection_epochs'', ''projection_spread''] =
     [Some (ABool (build_topic_model a)), Some (AInt (projection_n_neighbors a)),
      Some (AInt (projection_epochs a)), Some (AFloat (projection_spread a))]
   \<and>
   map (map_of (embeddings_index_kwargs n a'))
     [''build_topic_model'', ''topic_label_field'', ''projection_n_neighbors'',
      ''projection_epochs'', ''projection_spread''] =
     [Some (ABool (build_topic_model a')), Some (opt_str (topic_label_field a')),
      Some (AInt (projection_n_neighbors a')), Some (AInt (projection_epochs a')),
      Some (AFloat (projection_spread a'))]"
proof (intro conjI)
  let ?M = "map_text env b64int random_name (iter (x # xs)) a init"
  let ?st = "text_begin random_name a x init"
  let ?T = "text_upload env b64int (text_add_id a x) (id_field_of a) x (iter xs) ?st"
  let ?c = "index_call (total_datums env) (text_index_kwargs (name_of random_name a) a)"
  show "respond env [] (text_ctor random_name a) = None \<and>
    validate_map_data_inputs env (colorable_fields a) (id_field_of a) x = None \<and>
    add_errors env (trace (snd ?M)) = []
    \<longrightarrow>
      index_calls (trace (snd ?M)) = [?c] \<and>
      (\<exists>bs. trace (snd ?M) =
         (text_ctor random_name a # map Add_text bs) @ ?c #
         (case respond env (text_ctor random_name a # map Add_text bs) ?c of
            None \<Rightarrow> [Latest_project_state] | Some e \<Rightarrow> []))"
  proof (rule impI, elim conjE)
    assume c: "respond env [] (text_ctor random_name a) = None"
      and v: "validate_map_data_inputs env (colorable_fields a) (id_field_of a) x = None"
      and ok: "add_errors env (trace (snd ?M)) = []"
    obtain r st5 where T: "?T = (r, st5)" by (cases ?T)
    from c v have "fst ?T = Inr ()"
    proof (cases rule: map_text_upload_cases[of env random_name a x b64int "iter xs"])
      case ok
      then show ?thesis by simp
    next
      case (iter_raised e)
      then show ?thesis by simp
    next
      case (add_raised e)
      then show ?thesis using ok by simp
    qed
    with T have r: "r = Inr ()" by simp
    from text_upload_trace[of env b64int "text_add_id a x" "id_field_of a" x "iter xs" ?st] T
    obtain bs where bs: "trace st5 = text_ctor random_name a # map Add_text bs" by auto
    have c': "respond env (trace init) (text_ctor random_name a) = None" using c by simp
    from map_text_finish(1)[OF c' v T r]
    have t: "trace (snd ?M) =
               (text_ctor random_name a # map Add_text bs) @ ?c #
               (case respond env (text_ctor random_name a # map Add_text bs) ?c of
                  None \<Rightarrow> [Latest_project_state] | Some e \<Rightarrow> [])"
      unfolding bs by (simp add: Let_def index_call_def)
    have "index_calls (trace (snd ?M)) = [?c]"
      unfolding t by (simp add: text_ctor_def index_calls_def index_call_def split: option.splits)
    with t show "index_calls (trace (snd ?M)) = [?c] \<and>
      (\<exists>bs. trace (snd ?M) =
         (text_ctor random_name a # map Add_text bs) @ ?c #
         (case respond env (text_ctor random_name a # map Add_text bs) ?c of
            None \<Rightarrow> [Latest_project_state] | Some e \<Rightarrow> []))"
      by blast
  qed
next
  let ?M = "map_embeddings env b64int random_name embeddings data' a' init"
  let ?c = "index_call (total_datums env) (embeddings_index_kwargs (name_of random_name a') a')"
  show "size_of embeddings \<noteq> 0 \<and>
    prepare_data b64int (id_field_of a') embeddings data' = Inr (d, added) \<and>
    respond env [] (emb_ctor random_name a') = None \<and>
    respond env [emb_ctor random_name a'] (Add_embeddings embeddings d) = None
    \<longrightarrow>
      index_calls (trace (snd ?M)) = [?c] \<and>
      trace (snd ?M) =
        [emb_ctor random_name a', Add_embeddings embeddings d, ?c] @
        (case respond env [emb_ctor random_name a', Add_embeddings embeddings d] ?c of
           None \<Rightarrow> [Latest_project_state] | Some e \<Rightarrow> [])"
  proof (rule impI, elim conjE)
    assume h: "size_of embeddings \<noteq> 0"
      "prepare_data b64int (id_field_of a') embeddings data' = Inr (d, added)"
      "respond env [] (emb_ctor random_name a') = None"
      "respond env [emb_ctor random_name a'] (Add_embeddings embeddings d) = None"
    from map_embeddings_run(1)[OF h]
    have t: "trace (snd ?M) =
        [emb_ctor random_name a', Add_embeddings embeddings d, ?c] @
        (case respond env [emb_ctor random_name a', Add_embeddings embeddings d] ?c of
           None \<Rightarrow> [Latest_project_state] | Some e \<Rightarrow> [])"
      by (simp add: Let_def index_call_def)
    have "index_calls (trace (snd ?M)) = [?c]"
      unfolding t by (simp add: emb_ctor_def index_calls_def index_call_def split: option.splits)
    with t show "index_calls (trace (snd ?M)) = [?c] \<and>
      trace (snd ?M) =
        [emb_ctor random_name a', Add_embeddings embeddings d, ?c] @
        (case respond env [emb_ctor random_name a', Add_embeddings embeddings d] ?c of
           None \<Rightarrow> [Latest_project_state] | Some e \<Rightarrow> [])"
      by simp
  qed
qed (simp_all add: text_index_kwargs_def embeddings_index_kwargs_def)

lemma existing_remote_simps [simp]:
  "respond existing_remote tr c = None"
  "total_datums existing_remote = 500"
  "validate_map_data_inputs existing_remote cf idf d = None"
  by (simp_all add: existing_remote_def)

lemma raised_existing_remote [simp]: "raised existing_remote prev tr = []"
  by (induction tr arbitrary: prev) auto

lemma ok_remote_simps [simp]:
  "respond ok_remote tr c = None"
  "total_datums ok_remote = 0"
  "validate_map_data_inputs ok_remote cf idf d = None"
  by (simp_all add: ok_remote_def)

lemma example_prepare_data:
  "prepare_data unary (id_field_of example_embeddings_options) [[1, 2], [3, 4]] (Some example_data) =
     Inr (with_ids unary True ''id_'' 0 example_data, True)"
  using prepare_data_assigns[of "''id_''" "[(''text'', Str ''a'')]" unary "[[1, 2], [3, 4]]"
      "[[(''text'', Str ''b'')]]"]
  by (simp add: id_field_of_def example_defs ATLAS_DEFAULT_ID_FIELD_def has_key_def)

text \<open>The theorem on a new dataset, where \<^verbatim>\<open>create_index\<close> gets the arguments of the example,
  and on one that holds 500 records, where \<^verbatim>\<open>rebuild_maps\<close> is called.\<close>

theorem index_call_after_upload_witness:
  "index_calls (trace (snd (map_text ok_remote unary ''rnd'' (iter example_data)
                              example_text_options init))) =
     [Create_index
        [(''name'', AStr ''rnd''), (''indexed_field'', AStr ''text''),
         (''colorable_fields'', AStrs []), (''build_topic_model'', ABool True),
         (''projection_n_neighbors'', AInt 15), (''projection_epochs'', AInt 50),
         (''projection_spread'', AFloat 1), (''duplicate_detection'', ABool True),
         (''duplicate_threshold'', AFloat 0)]]
   \<and> index_calls (trace (snd (map_text existing_remote unary ''rnd'' (iter example_data)
                                 example_text_options init))) = [Rebuild_maps]
   \<and> index_calls (trace (snd (map_embeddings existing_remote unary ''rnd'' [[1, 2], [3, 4]]
                                 (Some example_data) example_embeddings_options init))) =
       [Rebuild_maps]"
proof -
  let ?x = "[(''text'', Str ''a'')]"
  let ?xs = "[[(''text'', Str ''b'')]]"
  have h1: "add_errors ok_remote
              (trace (snd (map_text ok_remote unary ''rnd'' (iter (?x # ?xs))
                             example_text_options init))) = []"
    and h2: "add_errors existing_remote
              (trace (snd (map_text existing_remote unary ''rnd'' (iter (?x # ?xs))
                             example_text_options init))) = []"
    by (simp_all add: add_errors_def)
  have g1: "size_of [[1, 2], [3, 4::real]] \<noteq> 0" by (simp add: size_of_def)
  have t1: "index_calls (trace (snd (map_text ok_remote unary ''rnd'' (iter (?x # ?xs))
                                       example_text_options init))) =
              [index_call (total_datums ok_remote)
                 (text_index_kwargs (name_of ''rnd'' example_text_options) example_text_options)]"
    using index_call_after_upload[where env = ok_remote and random_name = "''rnd''"
        and a = example_text_options and x = ?x and xs = ?xs and ?b64int = unary,
        THEN conjunct1] h1
    by simp
  have t2: "index_calls (trace (snd (map_text existing_remote unary ''rnd'' (iter (?x # ?xs))
                                       example_text_options init))) =
              [index_call (total_datums existing_remote)
                 (text_index_kwargs (name_of ''rnd'' example_text_options) example_text_options)]"
    using index_call_after_upload[where env = existing_remote and random_name = "''rnd''"
        and a = example_text_options and x = ?x and xs = ?xs and ?b64int = unary,
        THEN conjunct1] h2
    by simp
  have g: "size_of [[1, 2], [3, 4::real]] \<noteq> 0 \<and>
      prepare_data unary (id_field_of example_embeddings_options) [[1, 2], [3, 4]]
        (Some example_data) = Inr (with_ids unary True ''id_'' 0 example_data, True) \<and>
      respond existing_remote [] (emb_ctor ''rnd'' example_embeddings_options) = None \<and>
      respond existing_remote [emb_ctor ''rnd'' example_embeddings_options]
        (Add_embeddings [[1, 2], [3, 4]] (with_ids unary True ''id_'' 0 example_data)) = None"
    using g1 example_prepare_data by simp
  have t3: "index_calls (trace (snd (map_embeddings existing_remote unary ''rnd'' [[1, 2], [3, 4]]
                                       (Some example_data) example_embeddings_options init))) =
              [index_call (total_datums existing_remote)
                 (embeddings_index_kwargs (name_of ''rnd'' example_embeddings_options)
                    example_embeddings_options)]"
    using index_call_after_upload[where env = existing_remote and random_name = "''rnd''"
        and ?b64int = unary and embeddings = "[[1, 2], [3, 4]]" and a' = example_embeddings_options
        and data' = "Some example_data" and d = "with_ids unary True ''id_'' 0 example_data"
        and added = True, THEN conjunct2, THEN conjunct1, THEN mp, OF g]
    by (rule conjunct1)
  show ?thesis
    using t1 t2 t3
    by (simp add: example_data_def index_call_def text_index_kwargs_def name_of_def
        example_text_options_def example_options_def options.extend_def)
qed

text \<open>Claim C5 as it is stated fails: after an upload whose batches all succeed, two calls
  are made on the dataset object, not one. The index call is followed by
  \<^verbatim>\<open>project._latest_project_state()\<close> (lines 144 and 295).\<close>

theorem two_calls_after_upload_counterexample:
  "add_errors ok_remote
     (trace (snd (map_text ok_remote unary ''rnd'' (iter example_data) example_text_options init))) = []
   \<and> calls_after_upload
       (trace (snd (map_text ok_remote unary ''rnd'' (iter example_data) example_text_options init))) =
       [Create_index
          [(''name'', AStr ''rnd''), (''indexed_field'', AStr ''text''),
           (''colorable_fields'', AStrs []), (''build_topic_model'', ABool True),
           (''projection_n_neighbors'', AInt 15), (''projection_epochs'', AInt 50),
           (''projection_spread'', AFloat 1), (''duplicate_detection'', ABool True),
           (''duplicate_threshold'', AFloat 0)],
        Latest_project_state]
   \<and> length (calls_after_upload
         (trace (snd (map_text ok_remote unary ''rnd'' (iter example_data) example_text_options
                        init)))) \<noteq> 1"
  by (simp add: example_text_trace add_errors_def calls_after_upload_def)

text \<open>Claim C6, as the code has it. An input without records never reaches the constructor, on
  either path. \<^verbatim>\<open>map_text\<close> logs one warning and returns \<^verbatim>\<open>None\<close>. \<^verbatim>\<open>map_embeddings\<close>
  raises an \<^verbatim>\<open>Exception\<close> (line 64) and logs nothing.\<close>

theorem empty_input:
  "map_text env b64int random_name (iter []) a st =
     (Inr None,
      st\<lparr>log := log st @ [(WARNING, ''Passed data has no samples. No dataset will be created'')]\<rparr>)
   \<and> (size_of embeddings = 0 \<longrightarrow>
        map_embeddings env b64int random_name embeddings data' a' st =
          (Inl (Exception ''Your embeddings cannot be empty''), st))"
  by (simp add: map_text_Stop logger_def map_embeddings_empty)

text \<open>The theorem for an array with no rows.\<close>

theorem empty_input_witness:
  "size_of [] = 0
   \<and> map_embeddings ok_remote unary ''rnd'' [] None example_embeddings_options init =
       (Inl (Exception ''Your embeddings cannot be empty''), init)"
  using empty_input[where embeddings = "[]" and env = ok_remote and ?b64int = unary
      and random_name = "''rnd''" and data' = None and a' = example_embeddings_options
      and st = init]
  by (simp add: size_of_def)

text \<open>Claim C6 as it is stated fails on the embeddings path: an empty array raises.\<close>

theorem empty_embeddings_counterexample:
  "size_of [] = 0
   \<and> fst (map_embeddings ok_remote unary ''rnd'' [] None example_embeddings_options init) =
       Inl (Exception ''Your embeddings cannot be empty'')
   \<and> (\<forall>r. fst (map_embeddings ok_remote unary ''rnd'' [] None example_embeddings_options init) \<noteq>
            Inr r)"
  by (simp add: size_of_def map_embeddings_def)

text \<open>Claim C7, as the code has it. \<^verbatim>\<open>map_text\<close> validates (line 235) after it has
  constructed the dataset object (line 217). When validation fails the error goes to the
  caller and the constructor call is the only call made on the remote side: no record is
  sent, and nothing is deleted, indexed or refreshed.\<close>

theorem validation_after_constructor:
  "respond env [] (text_ctor random_name a) = None \<and>
   validate_map_data_inputs env (colorable_fields a) (id_field_of a) x = Some e \<longrightarrow>
     fst (map_text env b64int random_name (Yield x it) a init) = Inl e \<and>
     trace (snd (map_text env b64int random_name (Yield x it) a init)) = [text_ctor random_name a]"
  using map_text_invalid[of env init random_name a x e b64int it] by simp

lemma validating_remote_simps [simp]:
  "respond validating_remote tr c = None"
  "total_datums validating_remote = 0"
  "validate_map_data_inputs validating_remote = check_colorable"
  by (simp_all add: validating_remote_def)

lemma example_invalid:
  "validate_map_data_inputs validating_remote (colorable_fields label_options)
     (id_field_of label_options) [(''text'', Str ''a'')] =
     Some (ValidationError ''colorable fields not present in data'')"
  by (simp add: check_colorable_def label_options_def has_key_def)

text \<open>The theorem for a colorable field \<open>label\<close> that the data does not have.\<close>

theorem validation_after_constructor_witness:
  "validate_map_data_inputs validating_remote (colorable_fields label_options)
     (id_field_of label_options) [(''text'', Str ''a'')] =
     Some (ValidationError ''colorable fields not present in data'')
   \<and> fst (map_text validating_remote unary ''rnd'' (iter example_data) label_options init) =
       Inl (ValidationError ''colorable fields not present in data'')
   \<and> trace (snd (map_text validating_remote unary ''rnd'' (iter example_data) label_options init)) =
       [text_ctor ''rnd'' label_options]"
  using validation_after_constructor[where env = validating_remote and random_name = "''rnd''"
      and a = label_options and x = "[(''text'', Str ''a'')]"
      and e = "ValidationError ''colorable fields not present in data''"
      and ?b64int = unary and it = "iter [[(''text'', Str ''b'')]]"]
    example_invalid
  by (simp add: example_data_def)

text \<open>Claim C7 as it is stated fails: when the validation error is raised the dataset object
  has been constructed already.\<close>

theorem session_before_validation_counterexample:
  "fst (map_text validating_remote unary ''rnd'' (iter example_data) label_options init) =
     Inl (ValidationError ''colorable fields not present in data'')
   \<and> trace (snd (map_text validating_remote unary ''rnd'' (iter example_data) label_options init)) =
       [AtlasDataset
          [(''name'', AStr ''rnd''), (''description'', AStr ''A description for your map.''),
           (''unique_id_field'', AStr ''id_''), (''modality'', AStr ''text''),
           (''is_public'', ABool True), (''reset_project_if_exists'', ABool False),
           (''add_datums_if_exists'', ABool False)]]
   \<and> trace (snd (map_text validating_remote unary ''rnd'' (iter example_data) label_options init)) \<noteq> []"
  by (simp add: example_defs run_defs label_options_def check_colorable_def)

lemma agree_refl [simp]: "agree r r"
  by (simp add: agree_def)

lemma agree_invoke:
  "agree (u, s) (u', t) \<Longrightarrow> agree (invoke env c s) (invoke env c t)"
  by (simp add: agree_def invoke_def other_log_def)

lemma agree_logger:
  "agree (u, s) (u', t) \<Longrightarrow> agree (u, logger l m s) (u', logger l m t)"
  by (simp add: agree_def logger_def other_log_def)

lemma agree_deprecations:
  assumes "agree (u, s) (u', t)"
    and "m1 \<in> set deprecation_messages" "m2 \<in> set deprecation_messages"
  shows "agree (u, deprecations m1 m2 sh w s) (u', deprecations m1 m2 sh' w' t)"
  using assms
  by (simp add: agree_def deprecations_def logger_def other_log_def is_deprecation_def Let_def)

lemma agree_result: "agree (u, s) (u', t) \<Longrightarrow> agree (r, s) (r, t)"
  by (simp add: agree_def)

lemma agree_text_loop:
  "agree (u, s) (u', t) \<Longrightarrow>
   agree (text_loop env b n f idf it batch k s) (text_loop env b n f idf it batch k t)"
proof (induction it arbitrary: batch k s t)
  case Stop
  then show ?case by (simp add: agree_def)
next
  case (Raise e)
  then show ?case by (simp add: agree_def)
next
  case (Yield d it)
  let ?d = "if f then set_item d idf (Str (b k)) else d"
  let ?k = "if f then k + 1 else k"
  let ?batch = "batch @ [?d]"
  have tr: "trace s = trace t" using Yield.prems by (simp add: agree_def)
  show ?case
  proof (cases "n \<le> length ?batch")
    case full: True
    show ?thesis
    proof (cases "respond env (trace s) (Add_text ?batch)")
      case None
      let ?s = "s\<lparr>trace := trace s @ [Add_text ?batch]\<rparr>"
      let ?t = "t\<lparr>trace := trace t @ [Add_text ?batch]\<rparr>"
      have 1: "text_loop env b n f idf (Yield d it) batch k s = text_loop env b n f idf it [] ?k ?s"
        using full None by (simp add: invoke_def Let_def)
      have 2: "text_loop env b n f idf (Yield d it) batch k t = text_loop env b n f idf it [] ?k ?t"
        using full None tr by (simp add: invoke_def Let_def)
      have "agree (u, ?s) (u', ?t)"
        using Yield.prems by (simp add: agree_def other_log_def)
      then show ?thesis unfolding 1 2 by (rule Yield.IH)
    next
      case (Some e)
      have 1: "text_loop env b n f idf (Yield d it) batch k s
                 = (Inl e, s\<lparr>trace := trace s @ [Add_text ?batch]\<rparr>)"
        using full Some by (simp add: invoke_def Let_def)
      have 2: "text_loop env b n f idf (Yield d it) batch k t
                 = (Inl e, t\<lparr>trace := trace t @ [Add_text ?batch]\<rparr>)"
        using full Some tr by (simp add: invoke_def Let_def)
      show ?thesis unfolding 1 2 using Yield.prems by (simp add: agree_def other_log_def)
    qed
  next
    case False
    then have 1: "text_loop env b n f idf (Yield d it) batch k s
                    = text_loop env b n f idf it ?batch ?k s"
      and 2: "text_loop env b n f idf (Yield d it) batch k t
                    = text_loop env b n f idf it ?batch ?k t"
      by (simp_all add: Let_def)
    show ?thesis unfolding 1 2 using Yield.prems by (rule Yield.IH)
  qed
qed

lemma agree_text_upload:
  assumes "agree (u, s) (u', t)"
  shows "agree (text_upload env b f idf x it s) (text_upload env b f idf x it t)"
proof -
  let ?x = "if f then set_item x idf (Str (b 0)) else x"
  let ?k = "if f then 0 + 1 else (0::nat)"
  let ?Ls = "text_loop env b 100000 f idf it [?x] ?k s"
  let ?Lt = "text_loop env b 100000 f idf it [?x] ?k t"
  have L: "agree ?Ls ?Lt" using assms by (rule agree_text_loop)
  obtain r s' where Ls: "?Ls = (r, s')" by (cases ?Ls)
  obtain r' t' where Lt: "?Lt = (r', t')" by (cases ?Lt)
  from L Ls Lt have rr: "r' = r" and st: "agree (r, s') (r, t')" by (simp_all add: agree_def)
  show ?thesis
  proof (cases r)
    case (Inl e)
    then show ?thesis using Ls Lt rr st
      by (simp add: text_upload_def text_upload_sized_def Let_def agree_def)
  next
    case (Inr rest)
    show ?thesis
    proof (cases "rest = []")
      case True
      then show ?thesis using Ls Lt rr st Inr
        by (simp add: text_upload_def text_upload_sized_def Let_def agree_def)
    next
      case False
      then show ?thesis using Ls Lt rr Inr agree_invoke[OF st, of env "Add_text rest"]
        by (simp add: text_upload_def text_upload_sized_def Let_def)
    qed
  qed
qed

lemma agree_on_failure:
  assumes "agree r1 r2"
  shows "agree (on_failure env pn n r1) (on_failure env pn n r2)"
proof -
  obtain u s where r1: "r1 = (u, s)" by (cases r1)
  obtain u' t where r2: "r2 = (u', t)" by (cases r2)
  from assms r1 r2 have uu: "u' = u" by (simp add: agree_def)
  show ?thesis
  proof (cases u)
    case (Inr v)
    then show ?thesis using assms r1 r2 uu by simp
  next
    case (Inl e)
    show ?thesis
    proof (cases "n = 0")
      case True
      then show ?thesis using assms r1 r2 uu Inl
        by (simp add: on_failure_fresh agree_def other_log_def is_deprecation_def)
    next
      case False
      then show ?thesis using assms r1 r2 uu Inl by simp
    qed
  qed
qed

lemma agree_after_upload:
  assumes "agree (u, s) (u', t)"
  shows "agree (after_upload env lp n kw p s) (after_upload env lp n kw p t)"
  using assms
  by (simp add: agree_def after_upload_def invoke_def logger_def other_log_def Let_def
      split: option.splits)

text \<open>What follows the try block, in both functions, respects agreement.\<close>

lemma agree_finish:
  assumes "agree r1 r2"
  shows "agree (case on_failure env pn n r1 of
                  (Inl e, st5) \<Rightarrow> (Inl e, st5)
                | (Inr _, st5) \<Rightarrow> after_upload env lp n kw p (logger INFO m st5))
               (case on_failure env pn n r2 of
                  (Inl e, st5) \<Rightarrow> (Inl e, st5)
                | (Inr _, st5) \<Rightarrow> after_upload env lp n kw p (logger INFO m st5))"
proof -
  obtain u s where r1: "on_failure env pn n r1 = (u, s)" by (cases "on_failure env pn n r1")
  obtain u' t where r2: "on_failure env pn n r2 = (u', t)" by (cases "on_failure env pn n r2")
  from agree_on_failure[OF assms, of env pn n] r1 r2
  have a: "agree (u, s) (u', t)" and uu: "u' = u" by (simp_all add: agree_def)
  show ?thesis
  proof (cases u)
    case (Inl e)
    then show ?thesis using r1 r2 a uu by (simp add: agree_def)
  next
    case (Inr v)
    then show ?thesis
      using r1 r2 uu agree_after_upload[OF agree_logger[OF a, of INFO m], of env lp n kw p]
      by simp
  qed
qed

lemma deprecated_fields_unused [simp]:
  "id_field_of (a\<lparr>shard_size := s, num_workers := w\<rparr>) = id_field_of a"
  "description_of (a\<lparr>shard_size := s, num_workers := w\<rparr>) = description_of a"
  "name_of rn (a\<lparr>shard_size := s, num_workers := w\<rparr>) = name_of rn a"
  by (simp_all add: id_field_of_def description_of_def name_of_def)

lemma deprecated_fields_unused_text [simp]:
  "text_ctor rn (a\<lparr>shard_size := s, num_workers := w\<rparr>) = text_ctor rn a"
  "text_add_id (a\<lparr>shard_size := s, num_workers := w\<rparr>) x = text_add_id a x"
  "text_index_kwargs n (a\<lparr>shard_size := s, num_workers := w\<rparr>) = text_index_kwargs n a"
  "text_dataset_kwargs pn de idf (a\<lparr>shard_size := s, num_workers := w\<rparr>) =
     text_dataset_kwargs pn de idf a"
  by (simp_all add: text_ctor_def text_add_id_def text_index_kwargs_def text_dataset_kwargs_def)

lemma deprecated_fields_unused_embeddings [simp]:
  "emb_ctor rn (a'\<lparr>shard_size := s, num_workers := w\<rparr>) = emb_ctor rn a'"
  "embeddings_index_kwargs n (a'\<lparr>shard_size := s, num_workers := w\<rparr>) =
     embeddings_index_kwargs n a'"
  "embeddings_dataset_kwargs pn de idf (a'\<lparr>shard_size := s, num_workers := w\<rparr>) =
     embeddings_dataset_kwargs pn de idf a'"
  by (simp_all add: emb_ctor_def embeddings_index_kwargs_def embeddings_dataset_kwargs_def)

lemma agree_text_begin:
  "agree (u, text_begin rn (a\<lparr>shard_size := s, num_workers := w\<rparr>) x st)
         (u, text_begin rn (a\<lparr>shard_size := s', num_workers := w'\<rparr>) x st)"
  unfolding text_begin_def
  by (rule agree_deprecations) (simp_all add: deprecation_messages_def)

lemma agree_emb_begin:
  "agree (u, emb_begin rn (a'\<lparr>shard_size := s, num_workers := w\<rparr>) added st)
         (u, emb_begin rn (a'\<lparr>shard_size := s', num_workers := w'\<rparr>) added st)"
  unfolding emb_begin_def
  by (rule agree_deprecations) (simp_all add: deprecation_messages_def)

lemma map_text_invalid_state:
  "respond env (trace st) (text_ctor rn a) = None \<Longrightarrow>
   validate_map_data_inputs env (colorable_fields a) (id_field_of a) x = Some e \<Longrightarrow>
   map_text env b rn (Yield x it) a st =
     (Inl e,
      (let st1 = st\<lparr>trace := trace st @ [text_ctor rn a]\<rparr>
       in if text_add_id a x then
            logger WARNING
              ''An ID field was not specified in your data so one was generated for you in insertion order.''
              st1
          else st1))"
  by (simp add: map_text_def text_ctor_def text_add_id_def invoke_def Let_def)

lemma map_embeddings_ctor_fails_state:
  "size_of e \<noteq> 0 \<Longrightarrow> prepare_data b (id_field_of a) e data = Inr (d, added) \<Longrightarrow>
   respond env (trace st) (emb_ctor rn a) = Some ex \<Longrightarrow>
   map_embeddings env b rn e data a st =
     (Inl ex,
      (let st1 = (if added then
                    logger WARNING
                      ''An ID field was not specified in your data so one was generated for you in insertion order.''
                      st
                  else st)
       in st1\<lparr>trace := trace st1 @ [emb_ctor rn a]\<rparr>))"
  by (simp add: map_embeddings_def emb_ctor_def invoke_def Let_def)

lemma agree_map_text:
  "agree (map_text env b rn data (a\<lparr>shard_size := s, num_workers := w\<rparr>) st)
         (map_text env b rn data (a\<lparr>shard_size := s', num_workers := w'\<rparr>) st)"
proof (cases data)
  case Stop
  then show ?thesis by (simp add: map_text_Stop)
next
  case (Raise e)
  then show ?thesis by (simp add: map_text_Raise)
next
  case (Yield x it)
  let ?a1 = "a\<lparr>shard_size := s, num_workers := w\<rparr>"
  let ?a2 = "a\<lparr>shard_size := s', num_workers := w'\<rparr>"
  show ?thesis
  proof (cases "respond env (trace st) (text_ctor rn a)")
    case (Some e)
    then show ?thesis
      using Yield map_text_ctor_fails[of env st rn ?a1 e b x it]
        map_text_ctor_fails[of env st rn ?a2 e b x it]
      by simp
  next
    case None
    show ?thesis
    proof (cases "validate_map_data_inputs env (colorable_fields a) (id_field_of a) x")
      case (Some e)
      then show ?thesis
        using Yield None map_text_invalid_state[of env st rn ?a1 x e b it]
          map_text_invalid_state[of env st rn ?a2 x e b it]
        by simp
    next
      case vok: None
      have 1: "respond env (trace st) (text_ctor rn ?a1) = None"
        "validate_map_data_inputs env (colorable_fields ?a1) (id_field_of ?a1) x = None"
        and 2: "respond env (trace st) (text_ctor rn ?a2) = None"
        "validate_map_data_inputs env (colorable_fields ?a2) (id_field_of ?a2) x = None"
        using None vok by simp_all
      have u: "agree (text_upload env b (text_add_id a x) (id_field_of a) x it (text_begin rn ?a1 x st))
                     (text_upload env b (text_add_id a x) (id_field_of a) x it (text_begin rn ?a2 x st))"
        by (rule agree_text_upload[OF agree_text_begin[of "Inr ()"]])
      show ?thesis
        unfolding Yield map_text_reach[OF 1] map_text_reach[OF 2]
          deprecated_fields_unused deprecated_fields_unused_text
        by (rule agree_finish[OF u])
    qed
  qed
qed

lemma prepare_data_deprecated [simp]:
  "prepare_data b (id_field_of (a'\<lparr>shard_size := s, num_workers := w\<rparr>)) e data =
   prepare_data b (id_field_of a') e data"
  by simp

lemma agree_map_embeddings:
  "agree (map_embeddings env b rn e data (a'\<lparr>shard_size := s, num_workers := w\<rparr>) st)
         (map_embeddings env b rn e data (a'\<lparr>shard_size := s', num_workers := w'\<rparr>) st)"
proof (cases "size_of e = 0")
  case True
  then show ?thesis by (simp add: map_embeddings_empty)
next
  case nz: False
  let ?a1 = "a'\<lparr>shard_size := s, num_workers := w\<rparr>"
  let ?a2 = "a'\<lparr>shard_size := s', num_workers := w'\<rparr>"
  show ?thesis
  proof (cases "prepare_data b (id_field_of a') e data")
    case (Inl ex)
    then show ?thesis using nz by (simp add: map_embeddings_prepare_fails)
  next
    case (Inr p)
    obtain d added where p: "prepare_data b (id_field_of a') e data = Inr (d, added)"
      using Inr by (cases p) simp
    have p1: "prepare_data b (id_field_of ?a1) e data = Inr (d, added)"
      and p2: "prepare_data b (id_field_of ?a2) e data = Inr (d, added)"
      using p by simp_all
    show ?thesis
    proof (cases "respond env (trace st) (emb_ctor rn a')")
      case (Some ex)
      then show ?thesis
        using map_embeddings_ctor_fails_state[OF nz p1, of env st rn ex]
          map_embeddings_ctor_fails_state[OF nz p2, of env st rn ex]
        by simp
    next
      case None
      have 1: "respond env (trace st) (emb_ctor rn ?a1) = None"
        and 2: "respond env (trace st) (emb_ctor rn ?a2) = None"
        using None by simp_all
      have u: "agree (invoke env (Add_embeddings e d) (emb_begin rn ?a1 added st))
                     (invoke env (Add_embeddings e d) (emb_begin rn ?a2 added st))"
        by (rule agree_invoke[OF agree_emb_begin[of "Inr ()"]])
      show ?thesis
        unfolding map_embeddings_reach[OF nz p1 1] map_embeddings_reach[OF nz p2 2]
          deprecated_fields_unused deprecated_fields_unused_embeddings
        by (rule agree_finish[OF u])
    qed
  qed
qed

text \<open>Claim C9. Two calls of the same function that differ in \<^verbatim>\<open>shard_size\<close> and
  \<^verbatim>\<open>num_workers\<close> only give the same result and make the same calls on the dataset; their
  logs are the same once the deprecation warnings are left out.\<close>

theorem deprecated_arguments_ignored:
  "fst (map_text env b64int random_name data (a\<lparr>shard_size := s, num_workers := w\<rparr>) st) =
     fst (map_text env b64int random_name data (a\<lparr>shard_size := s', num_workers := w'\<rparr>) st)
   \<and> trace (snd (map_text env b64int random_name data (a\<lparr>shard_size := s, num_workers := w\<rparr>) st)) =
       trace (snd (map_text env b64int random_name data (a\<lparr>shard_size := s', num_workers := w'\<rparr>) st))
   \<and> other_log (snd (map_text env b64int random_name data
                       (a\<lparr>shard_size := s, num_workers := w\<rparr>) st)) =
       other_log (snd (map_text env b64int random_name data
                         (a\<lparr>shard_size := s', num_workers := w'\<rparr>) st))
   \<and> fst (map_embeddings env b64int random_name embeddings data'
            (a'\<lparr>shard_size := s, num_workers := w\<rparr>) st) =
       fst (map_embeddings env b64int random_name embeddings data'
              (a'\<lparr>shard_size := s', num_workers := w'\<rparr>) st)
   \<and> trace (snd (map_embeddings env b64int random_name embeddings data'
                   (a'\<lparr>shard_size := s, num_workers := w\<rparr>) st)) =
       trace (snd (map_embeddings env b64int random_name embeddings data'
                     (a'\<lparr>shard_size := s', num_workers := w'\<rparr>) st))
   \<and> other_log (snd (map_embeddings env b64int random_name embeddings data'
                       (a'\<lparr>shard_size := s, num_workers := w\<rparr>) st)) =
       other_log (snd (map_embeddings env b64int random_name embeddings data'
                         (a'\<lparr>shard_size := s', num_workers := w'\<rparr>) st))"
  using agree_map_text[where env = env and b = b64int and rn = random_name and data = data
      and a = a and s = s and w = w and st = st and s' = s' and w' = w']
    agree_map_embeddings[where env = env and b = b64int and rn = random_name and e = embeddings
      and data = data' and a' = a' and s = s and w = w and st = st and s' = s' and w' = w']
  by (simp add: agree_def)

text \<open>The theorem at the example input: with both deprecated arguments given, the calls are
  those of the run without them, and the log has the two warnings in addition.\<close>

theorem deprecated_arguments_ignored_witness:
  "trace (snd (map_text ok_remote unary ''rnd'' (iter example_data)
                 (example_text_options\<lparr>shard_size := Some 3, num_workers := Some 2\<rparr>) init)) =
     trace (snd (map_text ok_remote unary ''rnd'' (iter example_data)
                   (example_text_options\<lparr>shard_size := None, num_workers := None\<rparr>) init))
   \<and> log (snd (map_text ok_remote unary ''rnd'' (iter example_data)
                 (example_text_options\<lparr>shard_size := Some 3, num_workers := Some 2\<rparr>) init)) =
       [(WARNING, ''An ID field was not specified in your data so one was generated for you in insertion order.''),
        (INFO, ''Uploading text to Atlas.''),
        (WARNING, ''Passing 'shard_size' is deprecated and will be removed in a future release.''),
        (WARNING, ''Passing 'num_workers' is deprecated and will be removed in a future release.''),
        (INFO, ''Text upload succeeded.''),
        (INFO, ''projection'')]
   \<and> log (snd (map_text ok_remote unary ''rnd'' (iter example_data)
                 (example_text_options\<lparr>shard_size := None, num_workers := None\<rparr>) init)) =
       [(WARNING, ''An ID field was not specified in your data so one was generated for you in insertion order.''),
        (INFO, ''Uploading text to Atlas.''),
        (INFO, ''Text upload succeeded.''),
        (INFO, ''projection'')]"
proof -
  have "trace (snd (map_text ok_remote unary ''rnd'' (iter example_data)
                 (example_text_options\<lparr>shard_size := Some 3, num_workers := Some 2\<rparr>) init)) =
     trace (snd (map_text ok_remote unary ''rnd'' (iter example_data)
                   (example_text_options\<lparr>shard_size := None, num_workers := None\<rparr>) init))"
    using deprecated_arguments_ignored[where env = ok_remote and ?b64int = unary
        and random_name = "''rnd''" and data = "iter example_data" and a = example_text_options
        and s = "Some 3" and w = "Some 2" and s' = None and w' = None and st = init,
        THEN conjunct2, THEN conjunct1]
    by this
  then show ?thesis
    by (simp add: example_defs run_defs)
qed

lemma copy_dict_Some:
  "copy_dict h a = Some (h1, a') \<Longrightarrow> \<exists>d. lookup h a = Some (Dict d) \<and> h1 = h @ [Dict d] \<and> a' = length h"
  by (auto simp: copy_dict_def split: option.splits obj.splits)

lemma store_item_Some:
  "store_item h a k v = Some h' \<Longrightarrow>
   \<exists>d. lookup h a = Some (Dict d) \<and> h' = h[a := Dict (set_item d k v)]"
  by (auto simp: store_item_def split: option.splits obj.splits)

lemma list_get_Some:
  "list_get h l i = Some a \<Longrightarrow> \<exists>rs. lookup h l = Some (Refs rs) \<and> i < length rs \<and> a = rs ! i"
  by (auto simp: list_get_def split: option.splits obj.splits if_splits)

lemma list_set_Some:
  "list_set h l i a = Some h' \<Longrightarrow>
   \<exists>rs. lookup h l = Some (Refs rs) \<and> i < length rs \<and> h' = h[l := Refs (rs[i := a])]"
  by (auto simp: list_set_def split: option.splits obj.splits if_splits)

lemma lookup_Some: "lookup h a = Some v \<Longrightarrow> a < length h \<and> h ! a = v"
  by (auto simp: lookup_def split: if_splits)

text \<open>The text path writes to the copies only: the objects the caller had are as they were.\<close>

lemma copy_with_id_frame:
  assumes "copy_with_id b idf k a h = Some (h', a')"
  shows "take (length h) h' = h" and "length h \<le> length h'"
proof -
  from assms obtain h1 where c: "copy_dict h a = Some (h1, a')"
    and s: "store_item h1 a' idf (Str (b k)) = Some h'"
    by (auto simp: copy_with_id_def split: option.splits)
  from copy_dict_Some[OF c] obtain d where h1: "h1 = h @ [Dict d]" and a': "a' = length h" by auto
  from store_item_Some[OF s] obtain d' where h': "h' = h1[a' := Dict (set_item d' idf (Str (b k)))]"
    by auto
  show "take (length h) h' = h" unfolding h' h1 a' by simp
  show "length h \<le> length h'" unfolding h' h1 by simp
qed

lemma text_ids_store_frame:
  "text_ids_store b idf as k h = Some (h', as') \<Longrightarrow> take (length h) h' = h \<and> length h \<le> length h'"
proof (induction as arbitrary: k h h' as')
  case Nil
  then show ?case by simp
next
  case (Cons a as)
  from Cons.prems obtain h1 a1 as1 where c: "copy_with_id b idf k a h = Some (h1, a1)"
    and r: "text_ids_store b idf as (k + 1) h1 = Some (h', as1)"
    by (auto split: option.splits)
  from copy_with_id_frame[OF c] have 1: "take (length h) h1 = h" "length h \<le> length h1" .
  from Cons.IH[OF r] have 2: "take (length h1) h' = h1" "length h1 \<le> length h'" by simp_all
  have "take (length h) h' = take (length h) (take (length h1) h')"
    using 1(2) by (simp add: min_def)
  then show ?case using 1 2 by simp
qed

text \<open>The loop of \<^verbatim>\<open>map_embeddings\<close> leaves every object but the list \<^verbatim>\<open>data\<close> as it was:
  the caller's dicts are not written to.\<close>

lemma assign_step_frame:
  assumes "assign_step b idf l i h = Some h'"
  shows "length h \<le> length h'" and "\<And>a. a < length h \<Longrightarrow> a \<noteq> l \<Longrightarrow> h' ! a = h ! a"
proof -
  from assms obtain a h1 a' h2 a'' where g: "list_get h l i = Some a"
    and c: "copy_dict h a = Some (h1, a')"
    and ls: "list_set h1 l i a' = Some h2"
    and g2: "list_get h2 l i = Some a''"
    and s: "store_item h2 a'' idf (Str (b i)) = Some h'"
    by (auto simp: assign_step_def split: option.splits)
  from copy_dict_Some[OF c] obtain d where h1: "h1 = h @ [Dict d]" and a': "a' = length h" by auto
  from list_set_Some[OF ls] obtain rs where l1: "lookup h1 l = Some (Refs rs)" and i: "i < length rs"
    and h2: "h2 = h1[l := Refs (rs[i := a'])]" by auto
  from lookup_Some[OF l1] have ll: "l < length h1" by simp
  from list_get_Some[OF g2] obtain rs2 where "lookup h2 l = Some (Refs rs2)" and "a'' = rs2 ! i"
    by auto
  then have a'': "a'' = a'" using h2 ll i by (auto simp: lookup_def split: if_splits)
  from store_item_Some[OF s] obtain d' where
    h': "h' = h2[a'' := Dict (set_item d' idf (Str (b i)))]" by auto
  show "length h \<le> length h'" unfolding h' h2 h1 by simp
  show "h' ! a = h ! a" if "a < length h" "a \<noteq> l" for a
    unfolding h' h2 h1 a'' a' using that by (simp add: nth_append)
qed

lemma assign_loop_frame:
  "assign_loop b idf l is h = Some h' \<Longrightarrow>
   length h \<le> length h' \<and> (\<forall>a. a < length h \<longrightarrow> a \<noteq> l \<longrightarrow> h' ! a = h ! a)"
proof (induction "is" arbitrary: h)
  case Nil
  then show ?case by simp
next
  case (Cons i "is")
  from Cons.prems obtain h1 where s: "assign_step b idf l i h = Some h1"
    and r: "assign_loop b idf l is h1 = Some h'"
    by (auto split: option.splits)
  from assign_step_frame[OF s] Cons.IH[OF r] show ?case by auto
qed

lemma assign_ids_store_frame:
  "assign_ids_store b idf l h = Some h' \<Longrightarrow> a < length h \<Longrightarrow> a \<noteq> l \<Longrightarrow> h' ! a = h ! a"
  using assign_loop_frame[of b idf l _ h h']
  by (auto simp: assign_ids_store_def split: option.splits obj.splits)

lemmas store_defs = assign_ids_store_def assign_step_def list_get_def list_set_def copy_dict_def
  store_item_def lookup_def deref_def caller_store_def

text \<open>Claim C8 on the embeddings path. The caller passes one record in a list. After the loop of
  lines 87 to 90 the caller's record is as it was, and the copy carries the identifier; but
  the caller's list, at address 1, now holds the copy: read through \<^verbatim>\<open>data\<close>, the caller's
  first record has an \<^verbatim>\<open>id_\<close> field it did not have before the call.\<close>

theorem caller_list_rewritten:
  "deref caller_store [0] = [[(''text'', Str ''a'')]]
   \<and> assign_ids_store unary ''id_'' 1 caller_store =
       Some [Dict [(''text'', Str ''a'')], Refs [2],
             Dict [(''text'', Str ''a''), (''id_'', Str [])]]
   \<and> lookup caller_store 1 = Some (Refs [0])
   \<and> deref [Dict [(''text'', Str ''a'')], Refs [2], Dict [(''text'', Str ''a''), (''id_'', Str [])]]
         [2] = [[(''text'', Str ''a''), (''id_'', Str [])]]"
  by (simp add: store_defs set_item_def unary_def)

text \<open>On records, the text loop on the store computes what \<open>with_ids\<close> says, and it never
  fails when every address holds a dict.\<close>

lemma text_ids_store_values:
  assumes "\<forall>a\<in>set as. \<exists>d. lookup h a = Some (Dict d)"
  shows "\<exists>h' as'. text_ids_store b idf as k h = Some (h', as') \<and>
           deref h' as' = with_ids b True idf k (deref h as)"
  using assms
proof (induction as arbitrary: k h)
  case Nil
  then show ?case by (simp add: deref_def)
next
  case (Cons a as)
  from Cons.prems obtain d where d: "lookup h a = Some (Dict d)" by auto
  let ?h1 = "h @ [Dict (set_item d idf (Str (b k)))]"
  have c: "copy_with_id b idf k a h = Some (?h1, length h)"
    using d by (simp add: copy_with_id_def copy_dict_def store_item_def lookup_def)
  have same: "lookup ?h1 x = lookup h x" if "x < length h" for x
    using that by (simp add: lookup_def nth_append)
  have dicts: "\<forall>x\<in>set as. \<exists>d. lookup ?h1 x = Some (Dict d)"
  proof
    fix x assume "x \<in> set as"
    with Cons.prems obtain dx where dx: "lookup h x = Some (Dict dx)" by auto
    with lookup_Some[OF dx] same[of x] show "\<exists>d. lookup ?h1 x = Some (Dict d)" by simp
  qed
  from Cons.IH[OF dicts, of "k + 1"] obtain h' as' where
    r: "text_ids_store b idf as (k + 1) ?h1 = Some (h', as')"
    and v: "deref h' as' = with_ids b True idf (k + 1) (deref ?h1 as)"
    by blast
  from text_ids_store_frame[OF r] have fr: "take (length ?h1) h' = ?h1" "length ?h1 \<le> length h'"
    by simp_all
  have "h' ! length h = take (length ?h1) h' ! length h" by simp
  also have "\<dots> = Dict (set_item d idf (Str (b k)))" unfolding fr(1) by simp
  finally have new: "lookup h' (length h) = Some (Dict (set_item d idf (Str (b k))))"
    using fr(2) by (simp add: lookup_def)
  have old: "deref ?h1 as = deref h as"
  proof -
    have "lookup ?h1 x = lookup h x" if "x \<in> set as" for x
    proof -
      from that Cons.prems obtain dx where dx: "lookup h x = Some (Dict dx)" by auto
      from lookup_Some[OF dx] same[of x] show ?thesis by simp
    qed
    then show ?thesis by (simp add: deref_def)
  qed
  have "text_ids_store b idf (a # as) k h = Some (h', length h # as')"
    using c r by simp
  moreover have "deref h' (length h # as') = with_ids b True idf k (deref h (a # as))"
    using new v old d by (simp add: deref_def[of h' "_ # _"] deref_def[of h "_ # _"] with_ids_Cons)
      (simp add: deref_def)
  ultimately show ?case by blast
qed

lemma deref_nth: "j < length as \<Longrightarrow> lookup h (as ! j) = Some (Dict d) \<Longrightarrow> deref h as ! j = d"
  by (simp add: deref_def)

lemma length_deref [simp]: "length (deref h as) = length as"
  by (simp add: deref_def)

text \<open>One turn of the loop of \<^verbatim>\<open>map_embeddings\<close> on a list of dicts: entry \<open>n\<close> of the list
  becomes the address of a copy with the identifier, the other entries stay.\<close>

lemma assign_step_values:
  assumes l: "lookup h l = Some (Refs rs)"
    and n: "n < length rs"
    and dicts: "\<forall>a\<in>set rs. \<exists>d. lookup h a = Some (Dict d)"
  shows "\<exists>h'. assign_step b idf l n h = Some h' \<and>
           lookup h' l = Some (Refs (rs[n := length h])) \<and>
           (\<forall>a\<in>set (rs[n := length h]). \<exists>d. lookup h' a = Some (Dict d)) \<and>
           deref h' (rs[n := length h]) = (deref h rs)[n := set_item (deref h rs ! n) idf (Str (b n))]"
proof -
  from dicts nth_mem[OF n] obtain d where d: "lookup h (rs ! n) = Some (Dict d)" by blast
  from lookup_Some[OF l] have ll: "l < length h" "h ! l = Refs rs" by simp_all
  let ?h1 = "h @ [Dict d]"
  let ?h2 = "?h1[l := Refs (rs[n := length h])]"
  let ?h3 = "?h2[length h := Dict (set_item d idf (Str (b n)))]"
  have s: "assign_step b idf l n h = Some ?h3"
    using l n d ll
    by (simp add: assign_step_def list_get_def copy_dict_def list_set_def store_item_def
        lookup_def nth_append)
  have l3: "lookup ?h3 l = Some (Refs (rs[n := length h]))"
    using ll by (simp add: lookup_def nth_append)
  have old: "lookup ?h3 a = lookup h a" if "lookup h a = Some (Dict da)" for a da
  proof -
    from lookup_Some[OF that] have "a < length h" "h ! a = Dict da" by simp_all
    moreover then have "a \<noteq> l" using ll by auto
    ultimately show ?thesis by (simp add: lookup_def nth_append)
  qed
  have new: "lookup ?h3 (length h) = Some (Dict (set_item d idf (Str (b n))))"
    by (simp add: lookup_def)
  have dicts3: "\<forall>a\<in>set (rs[n := length h]). \<exists>d. lookup ?h3 a = Some (Dict d)"
  proof
    fix a assume "a \<in> set (rs[n := length h])"
    then have "a = length h \<or> a \<in> set rs" using set_update_subset_insert[of rs n "length h"] by auto
    then show "\<exists>d. lookup ?h3 a = Some (Dict d)"
    proof
      assume "a = length h" then show ?thesis using new by simp
    next
      assume "a \<in> set rs"
      with dicts obtain da where "lookup h a = Some (Dict da)" by auto
      with old[OF this] show ?thesis by simp
    qed
  qed
  have dn: "deref h rs ! n = d" using n d by (rule deref_nth)
  have "deref ?h3 (rs[n := length h]) = (deref h rs)[n := set_item d idf (Str (b n))]"
  proof (rule nth_equalityI)
    show "length (deref ?h3 (rs[n := length h])) = length ((deref h rs)[n := set_item d idf (Str (b n))])"
      by simp
  next
    fix j assume "j < length (deref ?h3 (rs[n := length h]))"
    then have j: "j < length rs" by simp
    show "deref ?h3 (rs[n := length h]) ! j = (deref h rs)[n := set_item d idf (Str (b n))] ! j"
    proof (cases "j = n")
      case True
      have "deref ?h3 (rs[n := length h]) ! j = set_item d idf (Str (b n))"
        using j True new by (intro deref_nth) simp_all
      then show ?thesis using True j by simp
    next
      case False
      from dicts nth_mem[OF j] obtain dj where dj: "lookup h (rs ! j) = Some (Dict dj)" by blast
      have "deref ?h3 (rs[n := length h]) ! j = dj"
        using j False old[OF dj] dj by (intro deref_nth) simp_all
      moreover have "deref h rs ! j = dj" using j dj by (rule deref_nth)
      ultimately show ?thesis using False j by simp
    qed
  qed
  with s l3 dicts3 dn show ?thesis by auto
qed

lemma assign_loop_values:
  assumes "lookup h l = Some (Refs rs)"
    and "\<forall>a\<in>set rs. \<exists>d. lookup h a = Some (Dict d)"
    and "n \<le> length rs"
  shows "\<exists>h' rs'. assign_loop b idf l [n..<length rs] h = Some h' \<and>
           lookup h' l = Some (Refs rs') \<and>
           deref h' rs' =
             map (\<lambda>j. if n \<le> j then set_item (deref h rs ! j) idf (Str (b j)) else deref h rs ! j)
               [0..<length rs]"
  using assms
proof (induction "length rs - n" arbitrary: n h rs)
  case 0
  then have "n = length rs" by simp
  then show ?case using 0 by (auto simp: map_nth intro!: exI[of _ rs] nth_equalityI)
next
  case (Suc k)
  then have n: "n < length rs" by simp
  from assign_step_values[OF Suc.prems(1) n Suc.prems(2), of b idf]
  obtain h1 where s: "assign_step b idf l n h = Some h1"
    and l1: "lookup h1 l = Some (Refs (rs[n := length h]))"
    and d1: "\<forall>a\<in>set (rs[n := length h]). \<exists>d. lookup h1 a = Some (Dict d)"
    and v1: "deref h1 (rs[n := length h]) =
               (deref h rs)[n := set_item (deref h rs ! n) idf (Str (b n))]"
    by blast
  let ?rs1 = "rs[n := length h]"
  have k: "k = length ?rs1 - Suc n" using Suc.hyps(2) by simp
  have le: "Suc n \<le> length ?rs1" using n by simp
  from Suc.hyps(1)[OF k l1 d1 le] obtain h' rs' where
    r: "assign_loop b idf l [Suc n..<length ?rs1] h1 = Some h'"
    and l': "lookup h' l = Some (Refs rs')"
    and v': "deref h' rs' =
              map (\<lambda>j. if Suc n \<le> j then set_item (deref h1 ?rs1 ! j) idf (Str (b j))
                        else deref h1 ?rs1 ! j) [0..<length ?rs1]"
    by blast
  have loop: "assign_loop b idf l [n..<length rs] h = Some h'"
    using n s r by (simp add: upt_conv_Cons)
  have "deref h' rs' =
          map (\<lambda>j. if n \<le> j then set_item (deref h rs ! j) idf (Str (b j)) else deref h rs ! j)
            [0..<length rs]"
    unfolding v' v1
  proof (rule nth_equalityI)
    show "length (map (\<lambda>j. if Suc n \<le> j
              then set_item ((deref h rs)[n := set_item (deref h rs ! n) idf (Str (b n))] ! j) idf (Str (b j))
              else (deref h rs)[n := set_item (deref h rs ! n) idf (Str (b n))] ! j) [0..<length ?rs1]) =
          length (map (\<lambda>j. if n \<le> j then set_item (deref h rs ! j) idf (Str (b j)) else deref h rs ! j)
              [0..<length rs])"
      by simp
  next
    fix j
    assume "j < length (map (\<lambda>j. if Suc n \<le> j
              then set_item ((deref h rs)[n := set_item (deref h rs ! n) idf (Str (b n))] ! j) idf (Str (b j))
              else (deref h rs)[n := set_item (deref h rs ! n) idf (Str (b n))] ! j) [0..<length ?rs1])"
    then have j: "j < length rs" by simp
    consider "j < n" | "j = n" | "n < j" by arith
    then show "map (\<lambda>j. if Suc n \<le> j
              then set_item ((deref h rs)[n := set_item (deref h rs ! n) idf (Str (b n))] ! j) idf (Str (b j))
              else (deref h rs)[n := set_item (deref h rs ! n) idf (Str (b n))] ! j) [0..<length ?rs1] ! j =
          map (\<lambda>j. if n \<le> j then set_item (deref h rs ! j) idf (Str (b j)) else deref h rs ! j)
              [0..<length rs] ! j"
      using j by cases simp_all
  qed
  with loop l' show ?case by blast
qed

text \<open>On records, the loop on the store computes \<open>assign_ids\<close>, and it never fails on a list
  of dicts.\<close>

lemma assign_ids_store_values:
  assumes "lookup h l = Some (Refs rs)"
    and "\<forall>a\<in>set rs. \<exists>d. lookup h a = Some (Dict d)"
  shows "\<exists>h' rs'. assign_ids_store b idf l h = Some h' \<and> lookup h' l = Some (Refs rs') \<and>
           deref h' rs' = assign_ids b idf (deref h rs)"
proof -
  from assign_loop_values[OF assms, of 0 b idf] obtain h' rs' where
    "assign_loop b idf l [0..<length rs] h = Some h'" "lookup h' l = Some (Refs rs')"
    "deref h' rs' = map (\<lambda>j. set_item (deref h rs ! j) idf (Str (b j))) [0..<length rs]"
    by auto
  then show ?thesis
    using assms(1) by (auto simp: assign_ids_store_def assign_ids_eq with_ids_def)
qed

end
